theory Spec2Isabelle
  imports Complex_Main
begin

section \<open>JavaScript values and string helpers\<close>

text \<open>
  The request adapter of \<^verbatim>\<open>src/utils/utils.js\<close> is embedded function by function.
  A JavaScript value that reaches the adapter from a parsed JSON body is a \<open>jsval\<close>; an
  object is the list of its own enumerable properties in property order (keys pairwise
  different), and \<open>JUndefined\<close> is what reading a missing property gives. A string is
  the list of its code units, each of them below 256 (U+0000 to U+00FF), which is what the
  type \<open>char\<close> holds; a string with a code unit from U+0100 on has no counterpart here.
\<close>

datatype jsval =
    JUndefined
  | JNull
  | JBool bool
  | JNum rat
  | JStr string
  | JArr "jsval list"
  | JObj "(string \<times> jsval) list"

definition getProp :: "(string \<times> jsval) list \<Rightarrow> string \<Rightarrow> jsval" where
  \<comment> \<open>\<^verbatim>\<open>obj.key\<close> on a plain object\<close>
  "getProp obj k = (case map_of obj k of None \<Rightarrow> JUndefined | Some v \<Rightarrow> v)"

definition nullish :: "jsval \<Rightarrow> jsval \<Rightarrow> jsval" where
  \<comment> \<open>\<^verbatim>\<open>a ?? b\<close>\<close>
  "nullish a b = (if a = JUndefined \<or> a = JNull then b else a)"

definition isWhiteSpace :: "char \<Rightarrow> bool" where
  \<comment> \<open>what \<^verbatim>\<open>String.prototype.trim\<close> strips (white space and line terminators), among the
      code units below 256: TAB, LF, VT, FF, CR, SP and the no-break space U+00A0. The
      others (U+1680, U+2000 to U+200A, U+2028, U+2029, U+202F, U+205F, U+3000, U+FEFF)
      lie beyond the type.\<close>
  "isWhiteSpace c =
     (c \<in> set [CHR 0x09, CHR 0x0A, CHR 0x0B, CHR 0x0C, CHR 0x0D, CHR 0x20, CHR 0xA0])"

definition trimStart :: "string \<Rightarrow> string" where
  "trimStart s = dropWhile isWhiteSpace s"

definition trimEnd :: "string \<Rightarrow> string" where
  "trimEnd s = rev (dropWhile isWhiteSpace (rev s))"

definition trim :: "string \<Rightarrow> string" where
  "trim s = trimEnd (trimStart s)"

fun startsWith :: "string \<Rightarrow> string \<Rightarrow> bool" where
  "startsWith s [] = True"
| "startsWith [] (p # ps) = False"
| "startsWith (c # cs) (p # ps) = (c = p \<and> startsWith cs ps)"

definition endsWith :: "string \<Rightarrow> string \<Rightarrow> bool" where
  "endsWith s suf = startsWith (rev s) (rev suf)"

fun includesSub :: "string \<Rightarrow> string \<Rightarrow> bool" where
  "includesSub [] sub = (sub = [])"
| "includesSub (c # cs) sub = (startsWith (c # cs) sub \<or> includesSub cs sub)"

fun join :: "string \<Rightarrow> string list \<Rightarrow> string" where
  \<comment> \<open>\<^verbatim>\<open>Array.prototype.join\<close> on an array of strings\<close>
  "join sep [] = []"
| "join sep [x] = x"
| "join sep (x # y # ys) = x @ sep @ join sep (y # ys)"

section \<open>Tool schema normalizer\<close>

definition EXCLUDED_KEYS :: "string list" where
  "EXCLUDED_KEYS = [''$schema'', ''additionalProperties'', ''minLength'', ''maxLength'',
     ''minItems'', ''maxItems'', ''uniqueItems'']"

definition keptKey :: "string \<Rightarrow> bool" where
  \<comment> \<open>A key survives the loop of \<^verbatim>\<open>cleanParameters\<close> when it is not in \<^verbatim>\<open>EXCLUDED_KEYS\<close>
      and the assignment \<^verbatim>\<open>cleaned[key] = ...\<close> creates an own property: for the key
      \<^verbatim>\<open>__proto__\<close> the assignment runs the prototype setter of the fresh object and adds
      no own property.\<close>
  "keptKey k = (k \<notin> set EXCLUDED_KEYS \<and> k \<noteq> ''__proto__'')"

fun cleanParameters :: "jsval \<Rightarrow> jsval" where
  "cleanParameters (JArr vs) = JArr (map cleanParameters vs)"
| "cleanParameters (JObj kvs) =
     JObj (map (\<lambda>(k, v). (k, cleanParameters v)) (filter (\<lambda>(k, v). keptKey k) kvs))"
| "cleanParameters v = v"

section \<open>Model policy resolver\<close>

definition modelMapping :: "string \<Rightarrow> string" where
  "modelMapping modelName =
     (if modelName = ''claude-sonnet-4-5-thinking'' then ''claude-sonnet-4-5''
      else if modelName = ''claude-opus-4-5'' then ''claude-opus-4-5-thinking''
      else if modelName = ''gemini-2.5-flash-thinking'' then ''gemini-2.5-flash''
      else modelName)"

definition isEnableThinking :: "string \<Rightarrow> bool" where
  "isEnableThinking modelName =
     (endsWith modelName ''-thinking'' \<or>
      modelName = ''gemini-2.5-pro'' \<or>
      startsWith modelName ''gemini-3-pro-'' \<or>
      modelName = ''rev19-uic3-1p'' \<or>
      modelName = ''gpt-oss-120b-medium'')"

section \<open>Generation config builder\<close>

text \<open>
  The configuration object is loaded outside the adapter and is a parameter here: the base
  system instruction (a string) and the generation defaults. A field of an object that the
  code may leave out or delete is an \<open>option\<close> in the record that models the object:
  \<open>None\<close> says that the object has no such property.
\<close>

record config =
  cfg_systemInstruction :: string
  cfg_top_p :: jsval
  cfg_top_k :: jsval
  cfg_temperature :: jsval
  cfg_max_tokens :: jsval
  cfg_thinking_budget :: jsval

record thinking_config =
  includeThoughts :: bool
  thinkingBudget :: jsval

record generation_config =
  topP :: "jsval option"
  topK :: jsval
  temperature :: jsval
  candidateCount :: jsval
  maxOutputTokens :: jsval
  stopSequences :: "string list"
  thinkingConfig :: thinking_config

definition REASONING_EFFORT_MAP :: "(string \<times> jsval) list" where
  "REASONING_EFFORT_MAP = [(''low'', JNum 1024), (''medium'', JNum 16000), (''high'', JNum 32000)]"

definition effortBudget :: "jsval \<Rightarrow> jsval" where
  \<comment> \<open>\<^verbatim>\<open>REASONING_EFFORT_MAP[parameters.reasoning_effort]\<close> for a string key and the own
      properties of the table. The code turns a key that is not a string into one first,
      and finds the names that the table inherits from \<^verbatim>\<open>Object.prototype\<close>; both read
      as a missing property here. The lookup is reached only when thinking is enabled and
      the parameters hold no \<^verbatim>\<open>thinking_budget\<close>.\<close>
  "effortBudget e = (case e of JStr s \<Rightarrow> getProp REASONING_EFFORT_MAP s | _ \<Rightarrow> JUndefined)"

definition generateGenerationConfig ::
  "config \<Rightarrow> (string \<times> jsval) list \<Rightarrow> bool \<Rightarrow> string \<Rightarrow> generation_config" where
  "generateGenerationConfig cfg parameters enableThinking actualModelName =
     (let defaultThinkingBudget = nullish (cfg_thinking_budget cfg) (JNum 16000);
          budget =
            (if enableThinking then
               (if getProp parameters ''thinking_budget'' \<noteq> JUndefined
                  then getProp parameters ''thinking_budget''
                else if getProp parameters ''reasoning_effort'' \<noteq> JUndefined
                  then nullish (effortBudget (getProp parameters ''reasoning_effort''))
                         defaultThinkingBudget
                else defaultThinkingBudget)
             else JNum 0);
          generationConfig = \<lparr>
            topP = Some (nullish (getProp parameters ''top_p'') (cfg_top_p cfg)),
            topK = nullish (getProp parameters ''top_k'') (cfg_top_k cfg),
            temperature = nullish (getProp parameters ''temperature'') (cfg_temperature cfg),
            candidateCount = JNum 1,
            maxOutputTokens = nullish (getProp parameters ''max_tokens'') (cfg_max_tokens cfg),
            stopSequences = [''<|user|>'', ''<|bot|>'', ''<|context_request|>'',
              ''<|endoftext|>'', ''<|end_of_turn|>''],
            thinkingConfig = \<lparr> includeThoughts = enableThinking, thinkingBudget = budget \<rparr> \<rparr>
      in if enableThinking \<and> includesSub actualModelName ''claude''
         then generationConfig \<lparr> topP := None \<rparr>
         else generationConfig)"

section \<open>Tool declarations\<close>

record openai_tool =
  tool_function_name :: string
  tool_function_description :: jsval
  tool_function_parameters :: jsval

record function_declaration =
  fd_name :: string
  fd_description :: jsval
  fd_parameters :: jsval

record tool_declaration =
  functionDeclarations :: "function_declaration list"

definition convertOpenAIToolsToAntigravity :: "openai_tool list option \<Rightarrow> tool_declaration list" where
  "convertOpenAIToolsToAntigravity openaiTools =
     (case openaiTools of
        None \<Rightarrow> []
      | Some ts \<Rightarrow>
          if length ts = 0 then []
          else map (\<lambda>tool. \<lparr> functionDeclarations = [\<lparr>
                  fd_name = tool_function_name tool,
                  fd_description = tool_function_description tool,
                  fd_parameters = cleanParameters (tool_function_parameters tool) \<rparr>] \<rparr>) ts)"


section \<open>Client messages and upstream turns\<close>

text \<open>
  A client message has a role (any string), a content that is a string, a list of items or
  missing, an optional list of tool calls and an optional tool call id. An upstream turn
  has role \<^verbatim>\<open>"user"\<close> or \<^verbatim>\<open>"model"\<close> and a list of parts; each part is an object with
  exactly one of the properties \<^verbatim>\<open>text\<close>, \<^verbatim>\<open>inlineData\<close>, \<^verbatim>\<open>functionCall\<close>,
  \<^verbatim>\<open>functionResponse\<close>. An id that is \<open>None\<close> is \<^verbatim>\<open>undefined\<close>; the function name and
  the argument string of a tool call are strings. The output of a functionResponse part is
  the content of the tool message as it is.
\<close>

datatype content_item =
    TextItem string
  | ImageUrlItem "string option"
  | OtherItem

datatype content =
    CString string
  | CArray "content_item list"
  | CAbsent

record tool_call =
  call_id :: "string option"
  function_name :: string
  function_arguments :: string

record message =
  role :: string
  content :: content
  tool_calls :: "tool_call list option"
  tool_call_id :: "string option"

datatype turn_role = User | Model

datatype part =
    Text string
  | InlineData string string
  | FunctionCall "string option" string string
  | FunctionResponse "string option" string content

record turn =
  t_role :: turn_role
  parts :: "part list"

datatype error = TypeError

section \<open>Content extractor\<close>

definition isWordChar :: "char \<Rightarrow> bool" where
  \<comment> \<open>the class \<^verbatim>\<open>\w\<close>\<close>
  "isWordChar c =
     (c \<in> set (''abcdefghijklmnopqrstuvwxyz'' @ ''ABCDEFGHIJKLMNOPQRSTUVWXYZ'' @ ''0123456789_''))"

definition isLineTerminator :: "char \<Rightarrow> bool" where
  \<comment> \<open>what \<^verbatim>\<open>.\<close> refuses, among the code units below 256: LF and CR (the other two,
      U+2028 and U+2029, lie beyond the type)\<close>
  "isLineTerminator c = (c = CHR 0x0A \<or> c = CHR 0x0D)"

definition matchDataImage :: "string \<Rightarrow> (string \<times> string) option" where
  \<comment> \<open>\<^verbatim>\<open>imageUrl.match(/^data:image\/(\w+);base64,(.+)$/)\<close>: the two groups of a match.
      The greedy \<^verbatim>\<open>\w+\<close> takes the whole run of word characters, since the next
      character has to be \<^verbatim>\<open>;\<close>.\<close>
  "matchDataImage imageUrl =
     (if startsWith imageUrl ''data:image/'' then
        (let rest = drop (length ''data:image/'') imageUrl;
             format = takeWhile isWordChar rest;
             after = dropWhile isWordChar rest;
             base64Data = drop (length '';base64,'') after
         in if format \<noteq> [] \<and> startsWith after '';base64,'' \<and> base64Data \<noteq> [] \<and>
               list_all (\<lambda>c. \<not> isLineTerminator c) base64Data
            then Some (format, base64Data) else None)
      else None)"

record extracted =
  ex_text :: string
  ex_images :: "part list"

fun extractItems :: "content_item list \<Rightarrow> extracted \<Rightarrow> extracted" where
  "extractItems [] result = result"
| "extractItems (item # items) result =
     extractItems items
       (case item of
          TextItem t \<Rightarrow> result \<lparr> ex_text := ex_text result @ t \<rparr>
        | ImageUrlItem url \<Rightarrow>
            (case matchDataImage (case url of None \<Rightarrow> [] | Some u \<Rightarrow> u) of
               Some (format, base64Data) \<Rightarrow>
                 result \<lparr> ex_images := ex_images result @ [InlineData (''image/'' @ format) base64Data] \<rparr>
             | None \<Rightarrow> result)
        | OtherItem \<Rightarrow> result)"

definition extractImagesFromContent :: "content \<Rightarrow> extracted" where
  "extractImagesFromContent c =
     (case c of
        CString s \<Rightarrow> \<lparr> ex_text = s, ex_images = [] \<rparr>
      | CArray items \<Rightarrow> extractItems items \<lparr> ex_text = [], ex_images = [] \<rparr>
      | CAbsent \<Rightarrow> \<lparr> ex_text = [], ex_images = [] \<rparr>)"

section \<open>Message history transcoder\<close>

text \<open>
  The transcoder pushes to and mutates the last element of the array
  \<^verbatim>\<open>antigravityMessages\<close>; here each handler takes the array as a list (oldest turn first)
  and returns the new list. \<^verbatim>\<open>handleAssistantMessage\<close> calls \<^verbatim>\<open>trim\<close> on every truthy
  content, which throws a \<^verbatim>\<open>TypeError\<close> when the content is a list.
\<close>

definition pushToLast :: "turn list \<Rightarrow> part list \<Rightarrow> turn list" where
  \<comment> \<open>\<^verbatim>\<open>lastMessage.parts.push(...ps)\<close>, where \<^verbatim>\<open>lastMessage\<close> is the last element of a
      non-empty array: the array with its last turn extended\<close>
  "pushToLast antigravityMessages ps =
     butlast antigravityMessages @
       [(last antigravityMessages) \<lparr> parts := parts (last antigravityMessages) @ ps \<rparr>]"

definition handleUserMessage :: "extracted \<Rightarrow> turn list \<Rightarrow> turn list" where
  "handleUserMessage ex antigravityMessages =
     antigravityMessages @ [\<lparr> t_role = User, parts = Text (ex_text ex) # ex_images ex \<rparr>]"

definition hasContentOf :: "content \<Rightarrow> error + bool" where
  \<comment> \<open>\<^verbatim>\<open>message.content && message.content.trim() !== ''\<close>\<close>
  "hasContentOf c =
     (case c of
        CAbsent \<Rightarrow> Inr False
      | CString s \<Rightarrow> Inr (s \<noteq> [] \<and> trim s \<noteq> [])
      | CArray items \<Rightarrow> Inl TypeError)"

definition contentTrimEnd :: "content \<Rightarrow> string" where
  \<comment> \<open>\<^verbatim>\<open>message.content.trimEnd()\<close>, reached for string contents only\<close>
  "contentTrimEnd c = (case c of CString s \<Rightarrow> trimEnd s | _ \<Rightarrow> [])"

definition toFunctionCall :: "tool_call \<Rightarrow> part" where
  "toFunctionCall toolCall =
     FunctionCall (call_id toolCall) (function_name toolCall) (function_arguments toolCall)"

definition handleAssistantMessage :: "message \<Rightarrow> turn list \<Rightarrow> error + turn list" where
  "handleAssistantMessage message antigravityMessages =
     (let hasToolCalls = (case tool_calls message of None \<Rightarrow> False | Some cs \<Rightarrow> length cs > 0)
      in case hasContentOf (content message) of
           Inl e \<Rightarrow> Inl e
         | Inr hasContent \<Rightarrow>
             (let antigravityTools =
                    (if hasToolCalls
                     then map toFunctionCall (case tool_calls message of None \<Rightarrow> [] | Some cs \<Rightarrow> cs)
                     else [])
              in if antigravityMessages \<noteq> [] \<and> t_role (last antigravityMessages) = Model \<and>
                    hasToolCalls \<and> \<not> hasContent
                 then Inr (pushToLast antigravityMessages antigravityTools)
                 else Inr (antigravityMessages @
                        [\<lparr> t_role = Model,
                           parts = (if hasContent then [Text (contentTrimEnd (content message))] else [])
                                   @ antigravityTools \<rparr>])))"

fun scanParts :: "string option \<Rightarrow> part list \<Rightarrow> string \<Rightarrow> string" where
  \<comment> \<open>the inner loop of \<^verbatim>\<open>handleToolCall\<close>: the first functionCall part with the id sets
      \<^verbatim>\<open>functionName\<close> and leaves the loop\<close>
  "scanParts tid [] functionName = functionName"
| "scanParts tid (FunctionCall i n a # ps) functionName =
     (if i = tid then n else scanParts tid ps functionName)"
| "scanParts tid (p # ps) functionName = scanParts tid ps functionName"

fun scanTurns :: "string option \<Rightarrow> turn list \<Rightarrow> string \<Rightarrow> string" where
  \<comment> \<open>the outer loop, over the turns from the newest to the oldest (the list given is the
      reversed array); it stops once \<^verbatim>\<open>functionName\<close> is a non-empty string\<close>
  "scanTurns tid [] functionName = functionName"
| "scanTurns tid (t # ts) functionName =
     (if t_role t = Model then
        (let functionName' = scanParts tid (parts t) functionName
         in if functionName' \<noteq> [] then functionName' else scanTurns tid ts functionName')
      else scanTurns tid ts functionName)"

fun isFunctionResponse :: "part \<Rightarrow> bool" where
  "isFunctionResponse (FunctionResponse i n c) = True"
| "isFunctionResponse p = False"

definition handleToolCall :: "message \<Rightarrow> turn list \<Rightarrow> turn list" where
  "handleToolCall message antigravityMessages =
     (let functionName = scanTurns (tool_call_id message) (rev antigravityMessages) [];
          functionResponse = FunctionResponse (tool_call_id message) functionName (content message)
      in if antigravityMessages \<noteq> [] \<and> t_role (last antigravityMessages) = User \<and>
            list_ex isFunctionResponse (parts (last antigravityMessages))
         then pushToLast antigravityMessages [functionResponse]
         else antigravityMessages @ [\<lparr> t_role = User, parts = [functionResponse] \<rparr>])"

definition transcodeMessage :: "message \<Rightarrow> turn list \<Rightarrow> error + turn list" where
  \<comment> \<open>the body of the loop of \<^verbatim>\<open>openaiMessageToAntigravity\<close>; a message of any other role
      is skipped\<close>
  "transcodeMessage message antigravityMessages =
     (if role message = ''user'' then
        Inr (handleUserMessage (extractImagesFromContent (content message)) antigravityMessages)
      else if role message = ''system'' then
        Inr (handleUserMessage (extractImagesFromContent (content message)) antigravityMessages)
      else if role message = ''assistant'' then
        handleAssistantMessage message antigravityMessages
      else if role message = ''tool'' then
        Inr (handleToolCall message antigravityMessages)
      else Inr antigravityMessages)"

fun transcodeLoop :: "message list \<Rightarrow> turn list \<Rightarrow> error + turn list" where
  "transcodeLoop [] antigravityMessages = Inr antigravityMessages"
| "transcodeLoop (message # rest) antigravityMessages =
     (case transcodeMessage message antigravityMessages of
        Inl e \<Rightarrow> Inl e
      | Inr antigravityMessages' \<Rightarrow> transcodeLoop rest antigravityMessages')"

definition openaiMessageToAntigravity :: "message list \<Rightarrow> error + turn list" where
  "openaiMessageToAntigravity openaiMessages = transcodeLoop openaiMessages []"

section \<open>System instruction and request envelope\<close>

definition systemContentText :: "content \<Rightarrow> string" where
  \<comment> \<open>the text of a system message: the string itself, or the texts of the text items of a
      list joined without separator, or the empty string\<close>
  "systemContentText c =
     (case c of
        CString s \<Rightarrow> s
      | CArray items \<Rightarrow> concat (map (\<lambda>item. case item of TextItem t \<Rightarrow> t | _ \<Rightarrow> []) items)
      | CAbsent \<Rightarrow> [])"

fun collectSystemTexts :: "message list \<Rightarrow> string list" where
  \<comment> \<open>the first loop of \<^verbatim>\<open>extractSystemInstruction\<close>, which stops at the first message
      that is not a system message\<close>
  "collectSystemTexts [] = []"
| "collectSystemTexts (message # rest) =
     (if role message = ''system'' then
        (let c = systemContentText (content message)
         in (if trim c \<noteq> [] then [trim c] else []) @ collectSystemTexts rest)
      else [])"

definition extractSystemInstruction :: "config \<Rightarrow> message list \<Rightarrow> string" where
  "extractSystemInstruction cfg openaiMessages =
     (let baseSystem = cfg_systemInstruction cfg;
          systemTexts = collectSystemTexts openaiMessages;
          ps = (if trim baseSystem \<noteq> [] then [trim baseSystem] else []) @
               (if length systemTexts > 0 then [join [CHR 0x0A, CHR 0x0A] systemTexts] else [])
      in join [CHR 0x0A, CHR 0x0A] ps)"

record token =
  projectId :: string
  sessionId :: string

record function_calling_config =
  mode :: string

record tool_config =
  functionCallingConfig :: function_calling_config

record request =
  contents :: "turn list"
  tools :: "tool_declaration list option"
  toolConfig :: tool_config
  generationConfig :: generation_config
  req_sessionId :: string
  systemInstruction :: "turn option"

record request_body =
  project :: string
  requestId :: string
  request :: request
  model :: string
  userAgent :: string

fun startIndex :: "message list \<Rightarrow> nat" where
  \<comment> \<open>the number of leading system messages\<close>
  "startIndex [] = 0"
| "startIndex (message # rest) = (if role message = ''system'' then Suc (startIndex rest) else 0)"

definition generateRequestBody ::
  "config \<Rightarrow> string \<Rightarrow> message list \<Rightarrow> string \<Rightarrow> (string \<times> jsval) list \<Rightarrow>
   openai_tool list option \<Rightarrow> token \<Rightarrow> error + request_body" where
  \<comment> \<open>\<open>freshId\<close> is what \<^verbatim>\<open>generateRequestId()\<close> returns for this call\<close>
  "generateRequestBody cfg freshId openaiMessages modelName parameters openaiTools tok =
     (let enableThinking = isEnableThinking modelName;
          actualModelName = modelMapping modelName;
          mergedSystemInstruction = extractSystemInstruction cfg openaiMessages;
          filteredMessages = drop (startIndex openaiMessages) openaiMessages
      in case openaiMessageToAntigravity filteredMessages of
           Inl e \<Rightarrow> Inl e
         | Inr cs \<Rightarrow>
             Inr \<lparr> project = projectId tok,
                   requestId = freshId,
                   request = \<lparr>
                     contents = cs,
                     tools = Some (convertOpenAIToolsToAntigravity openaiTools),
                     toolConfig = \<lparr> functionCallingConfig = \<lparr> mode = ''VALIDATED'' \<rparr> \<rparr>,
                     generationConfig =
                       generateGenerationConfig cfg parameters enableThinking actualModelName,
                     req_sessionId = sessionId tok,
                     systemInstruction =
                       (if mergedSystemInstruction \<noteq> []
                        then Some \<lparr> t_role = User, parts = [Text mergedSystemInstruction] \<rparr>
                        else None) \<rparr>,
                   model = actualModelName,
                   userAgent = ''antigravity'' \<rparr>)"

section \<open>Notions used in the statements\<close>

text \<open>The parts held by the turns of one role in a turn list.\<close>

definition partsOf :: "turn_role \<Rightarrow> turn list \<Rightarrow> part set" where
  "partsOf r S = (\<Union>t \<in> set S. if t_role t = r then set (parts t) else {})"

text \<open>
  A content without non-empty text: it is missing, or a string with nothing but white space.
  A list content is not covered, since \<^verbatim>\<open>handleAssistantMessage\<close> throws on it.
\<close>

definition blankContent :: "content \<Rightarrow> bool" where
  "blankContent c = (case c of CAbsent \<Rightarrow> True | CString s \<Rightarrow> trim s = [] | CArray items \<Rightarrow> False)"

text \<open>
  The roles that the transcoder handles; a message of any other role leaves no trace.
\<close>

definition knownRole :: "message \<Rightarrow> bool" where
  "knownRole m = (role m \<in> set [''user'', ''system'', ''assistant'', ''tool''])"

text \<open>
  An assistant message that has tool calls and no non-empty text: the kind that is merged
  into a preceding model turn.
\<close>

definition toolCallsOnly :: "message \<Rightarrow> bool" where
  "toolCallsOnly m =
     ((case tool_calls m of None \<Rightarrow> False | Some cs \<Rightarrow> cs \<noteq> []) \<and> blankContent (content m))"

text \<open>
  For two messages of handled roles, one directly after the other: the second one opens a
  new turn of the role that the turn of the first one has. This is so for an assistant
  message after an assistant message unless it has tool calls only, for a tool message
  after a user or system message, and for a user or system message after anything but
  an assistant message.
\<close>

definition opensSameRoleTurn :: "message \<Rightarrow> message \<Rightarrow> bool" where
  "opensSameRoleTurn prev cur =
     (if role cur = ''assistant'' then role prev = ''assistant'' \<and> \<not> toolCallsOnly cur
      else if role cur = ''tool'' then role prev = ''user'' \<or> role prev = ''system''
      else role prev \<noteq> ''assistant'')"

text \<open>The tool calls that a message carries.\<close>

definition callsOf :: "message \<Rightarrow> tool_call list" where
  "callsOf m = (case tool_calls m of None \<Rightarrow> [] | Some cs \<Rightarrow> cs)"

text \<open>
  The message \<open>m\<close>, coming after the messages \<open>before\<close>, is one of the two kinds whose
  parts are appended to the turn of the message of a handled role before it: a tool message
  after a tool message, or an assistant message with tool calls only after an assistant
  message.
\<close>

definition appendedToPrevious :: "message list \<Rightarrow> message \<Rightarrow> bool" where
  "appendedToPrevious before m =
     (filter knownRole before \<noteq> [] \<and>
      (role m = ''tool'' \<and> role (last (filter knownRole before)) = ''tool'' \<or>
       role m = ''assistant'' \<and> role (last (filter knownRole before)) = ''assistant'' \<and>
         toolCallsOnly m))"

text \<open>
  The role of the turn that takes the parts of a message, and the parts that a message of
  a handled role contributes when the turns so far are \<open>S\<close>: the text (if not blank, without
  trailing white space) and the functionCall parts of an assistant message, the
  functionResponse part of a tool message with the name found in \<open>S\<close>, the text and the
  images of a user or system message.
\<close>

definition messageRole :: "message \<Rightarrow> turn_role" where
  "messageRole m = (if role m = ''assistant'' then Model else User)"

definition messageParts :: "turn list \<Rightarrow> message \<Rightarrow> part list" where
  "messageParts S m =
     (if role m = ''assistant'' then
        (if blankContent (content m) then [] else [Text (contentTrimEnd (content m))]) @
        map toFunctionCall (callsOf m)
      else if role m = ''tool'' then
        [FunctionResponse (tool_call_id m) (scanTurns (tool_call_id m) (rev S) []) (content m)]
      else Text (ex_text (extractImagesFromContent (content m))) #
           ex_images (extractImagesFromContent (content m)))"

section \<open>Properties\<close>

subsection \<open>Tool schema normalizer\<close>

lemma filter_kept_map_clean:
  "filter (\<lambda>(k, v). keptKey k) (map (\<lambda>(k, v). (k, f v)) kvs) =
   map (\<lambda>(k, v). (k, f v)) (filter (\<lambda>(k, v). keptKey k) kvs)"
  by (induction kvs) auto

text \<open>
  C8. The tool schema normalizer is idempotent: on every value (object, array or leaf)
  a second run of \<open>cleanParameters\<close> changes nothing.
\<close>

theorem cleanParameters_idempotent:
  "cleanParameters (cleanParameters v) = cleanParameters v"
proof (induction v)
  case (JArr vs)
  then show ?case by (induction vs) auto
next
  case (JObj kvs)
  have ih: "cleanParameters (cleanParameters b) = cleanParameters b"
    if "(a, b) \<in> set kvs" for a b
    using JObj that by fastforce
  show ?case
    by (auto simp: filter_kept_map_clean ih)
qed simp_all

subsection \<open>Model policy and generation config\<close>

lemma generateRequestBody_Inr:
  assumes "generateRequestBody cfg freshId openaiMessages modelName parameters openaiTools tok = Inr rb"
  shows "\<exists>cs. openaiMessageToAntigravity (drop (startIndex openaiMessages) openaiMessages) = Inr cs \<and>
     rb = \<lparr> project = projectId tok, requestId = freshId,
            request = \<lparr> contents = cs,
              tools = Some (convertOpenAIToolsToAntigravity openaiTools),
              toolConfig = \<lparr> functionCallingConfig = \<lparr> mode = ''VALIDATED'' \<rparr> \<rparr>,
              generationConfig = generateGenerationConfig cfg parameters
                (isEnableThinking modelName) (modelMapping modelName),
              req_sessionId = sessionId tok,
              systemInstruction =
                (if extractSystemInstruction cfg openaiMessages \<noteq> []
                 then Some \<lparr> t_role = User, parts = [Text (extractSystemInstruction cfg openaiMessages)] \<rparr>
                 else None) \<rparr>,
            model = modelMapping modelName, userAgent = ''antigravity'' \<rparr>"
  using assms by (auto simp: generateRequestBody_def Let_def split: sum.splits)

lemma transcode_single_user:
  "openaiMessageToAntigravity
     [\<lparr> role = ''user'', content = CString s, tool_calls = None, tool_call_id = None \<rparr>]
   = Inr [\<lparr> t_role = User, parts = [Text s] \<rparr>]"
  by (simp add: openaiMessageToAntigravity_def transcodeMessage_def handleUserMessage_def
      extractImagesFromContent_def)

text \<open>
  C3. Whenever the thinking flag resolved for a model name is false, the generation config
  built for that model has \<open>thinkingConfig.thinkingBudget = 0\<close>, whatever the parameter
  object holds under \<^verbatim>\<open>thinking_budget\<close> or \<^verbatim>\<open>reasoning_effort\<close>.
\<close>

theorem thinking_budget_zero_when_disabled:
  assumes "\<not> isEnableThinking modelName"
  shows "thinkingBudget (thinkingConfig (generateGenerationConfig cfg parameters
           (isEnableThinking modelName) (modelMapping modelName))) = JNum 0"
  using assms by (simp add: generateGenerationConfig_def Let_def)

theorem thinking_budget_zero_when_disabled_witness:
  "\<not> isEnableThinking ''gemini-2.5-flash'' \<and>
   thinkingBudget (thinkingConfig (generateGenerationConfig
     \<lparr> cfg_systemInstruction = '''', cfg_top_p = JNum 1, cfg_top_k = JNum 50,
       cfg_temperature = JNum 1, cfg_max_tokens = JNum 8096, cfg_thinking_budget = JNum 16000 \<rparr>
     [(''thinking_budget'', JNum 5000), (''reasoning_effort'', JStr ''high'')]
     (isEnableThinking ''gemini-2.5-flash'') (modelMapping ''gemini-2.5-flash''))) = JNum 0"
proof -
  have h: "\<not> isEnableThinking ''gemini-2.5-flash''"
    by (simp add: isEnableThinking_def endsWith_def)
  show ?thesis
    using h thinking_budget_zero_when_disabled [OF h] by simp
qed

text \<open>
  C4. The client model \<^verbatim>\<open>claude-sonnet-4-5-thinking\<close> is mapped to the upstream model
  \<^verbatim>\<open>claude-sonnet-4-5\<close> with thinking enabled, and the generation config built for it has
  no \<open>topP\<close> property, for every configuration and parameter object.
\<close>

theorem claude_sonnet_thinking_policy:
  "modelMapping ''claude-sonnet-4-5-thinking'' = ''claude-sonnet-4-5'' \<and>
   isEnableThinking ''claude-sonnet-4-5-thinking'' \<and>
   topP (generateGenerationConfig cfg parameters
           (isEnableThinking ''claude-sonnet-4-5-thinking'')
           (modelMapping ''claude-sonnet-4-5-thinking'')) = None"
proof -
  have m: "modelMapping ''claude-sonnet-4-5-thinking'' = ''claude-sonnet-4-5''"
    by (simp add: modelMapping_def)
  have e: "isEnableThinking ''claude-sonnet-4-5-thinking''"
    by (simp add: isEnableThinking_def endsWith_def)
  have i: "includesSub ''claude-sonnet-4-5'' ''claude''"
    by simp
  show ?thesis
    by (simp add: m e i generateGenerationConfig_def Let_def)
qed

text \<open>
  C10. The client model \<^verbatim>\<open>claude-opus-4-5\<close> is mapped to the upstream model
  \<^verbatim>\<open>claude-opus-4-5-thinking\<close> while thinking is not enabled for it: every request body
  built for this model names the thinking upstream model and carries a generation config
  with \<open>includeThoughts\<close> false and \<open>thinkingBudget\<close> 0.
\<close>

theorem claude_opus_alias_without_thinking:
  assumes "generateRequestBody cfg freshId openaiMessages ''claude-opus-4-5'' parameters
             openaiTools tok = Inr rb"
  shows "modelMapping ''claude-opus-4-5'' = ''claude-opus-4-5-thinking'' \<and>
         \<not> isEnableThinking ''claude-opus-4-5'' \<and>
         model rb = ''claude-opus-4-5-thinking'' \<and>
         includeThoughts (thinkingConfig (generationConfig (request rb))) = False \<and>
         thinkingBudget (thinkingConfig (generationConfig (request rb))) = JNum 0"
proof -
  have m: "modelMapping ''claude-opus-4-5'' = ''claude-opus-4-5-thinking''"
    by (simp add: modelMapping_def)
  have e: "\<not> isEnableThinking ''claude-opus-4-5''"
    by (simp add: isEnableThinking_def endsWith_def)
  from generateRequestBody_Inr [OF assms] obtain cs where
    rb: "rb = \<lparr> project = projectId tok, requestId = freshId,
            request = \<lparr> contents = cs,
              tools = Some (convertOpenAIToolsToAntigravity openaiTools),
              toolConfig = \<lparr> functionCallingConfig = \<lparr> mode = ''VALIDATED'' \<rparr> \<rparr>,
              generationConfig =
                generateGenerationConfig cfg parameters False ''claude-opus-4-5-thinking'',
              req_sessionId = sessionId tok,
              systemInstruction =
                (if extractSystemInstruction cfg openaiMessages \<noteq> []
                 then Some \<lparr> t_role = User, parts = [Text (extractSystemInstruction cfg openaiMessages)] \<rparr>
                 else None) \<rparr>,
            model = ''claude-opus-4-5-thinking'', userAgent = ''antigravity'' \<rparr>"
    by (auto simp: m e)
  show ?thesis
    by (simp add: m e rb generateGenerationConfig_def Let_def)
qed

theorem claude_opus_alias_without_thinking_witness:
  "\<exists>rb. generateRequestBody
      \<lparr> cfg_systemInstruction = ''Be kind'', cfg_top_p = JNum 1, cfg_top_k = JNum 50,
        cfg_temperature = JNum 1, cfg_max_tokens = JNum 8096, cfg_thinking_budget = JNum 16000 \<rparr>
      ''req-1''
      [\<lparr> role = ''user'', content = CString ''Hi'', tool_calls = None, tool_call_id = None \<rparr>]
      ''claude-opus-4-5''
      [(''thinking_budget'', JNum 5000)] None
      \<lparr> projectId = ''p'', sessionId = ''s'' \<rparr> = Inr rb \<and>
     model rb = ''claude-opus-4-5-thinking'' \<and>
     includeThoughts (thinkingConfig (generationConfig (request rb))) = False \<and>
     thinkingBudget (thinkingConfig (generationConfig (request rb))) = JNum 0"
proof -
  obtain rb where b: "generateRequestBody
      \<lparr> cfg_systemInstruction = ''Be kind'', cfg_top_p = JNum 1, cfg_top_k = JNum 50,
        cfg_temperature = JNum 1, cfg_max_tokens = JNum 8096, cfg_thinking_budget = JNum 16000 \<rparr>
      ''req-1''
      [\<lparr> role = ''user'', content = CString ''Hi'', tool_calls = None, tool_call_id = None \<rparr>]
      ''claude-opus-4-5''
      [(''thinking_budget'', JNum 5000)] None
      \<lparr> projectId = ''p'', sessionId = ''s'' \<rparr> = Inr rb"
    by (simp add: generateRequestBody_def Let_def transcode_single_user)
  from claude_opus_alias_without_thinking [OF b] b show ?thesis
    by blast
qed

subsection \<open>Request envelope\<close>

lemma collectSystemTexts_no_leading:
  "(case ms of [] \<Rightarrow> True | m # rest \<Rightarrow> role m \<noteq> ''system'') \<Longrightarrow> collectSystemTexts ms = []"
  by (cases ms) auto

lemma extractSystemInstruction_no_leading:
  assumes "case ms of [] \<Rightarrow> True | m # rest \<Rightarrow> role m \<noteq> ''system''"
  shows "extractSystemInstruction cfg ms = trim (cfg_systemInstruction cfg)"
  using collectSystemTexts_no_leading [OF assms]
  by (simp add: extractSystemInstruction_def Let_def)

text \<open>
  C2 (as stated, refuted). With no tool declarations the request built has a \<open>tools\<close>
  property: it is present and holds the empty list.
\<close>

theorem tools_field_present_counterexample:
  "\<not> isl (generateRequestBody
      \<lparr> cfg_systemInstruction = '''', cfg_top_p = JNum 1, cfg_top_k = JNum 50,
        cfg_temperature = JNum 1, cfg_max_tokens = JNum 8096, cfg_thinking_budget = JNum 16000 \<rparr>
      ''req-1''
      [\<lparr> role = ''user'', content = CString ''Hi'', tool_calls = None, tool_call_id = None \<rparr>]
      ''gemini-2.5-flash'' [] None \<lparr> projectId = ''p'', sessionId = ''s'' \<rparr>) \<and>
   tools (request (projr (generateRequestBody
      \<lparr> cfg_systemInstruction = '''', cfg_top_p = JNum 1, cfg_top_k = JNum 50,
        cfg_temperature = JNum 1, cfg_max_tokens = JNum 8096, cfg_thinking_budget = JNum 16000 \<rparr>
      ''req-1''
      [\<lparr> role = ''user'', content = CString ''Hi'', tool_calls = None, tool_call_id = None \<rparr>]
      ''gemini-2.5-flash'' [] None \<lparr> projectId = ''p'', sessionId = ''s'' \<rparr>))) = Some []"
  by (simp add: generateRequestBody_def Let_def transcode_single_user
      convertOpenAIToolsToAntigravity_def)

text \<open>
  C2 (amended). In every request body built, the \<open>tools\<close> property is present and holds
  the converted declarations, which is the empty list when the client supplies no tool
  declarations (none at all, or an empty list); the \<open>systemInstruction\<close> property is
  absent when the merged system instruction is empty.
\<close>

theorem tools_empty_system_instruction_absent:
  assumes "generateRequestBody cfg freshId openaiMessages modelName parameters openaiTools tok = Inr rb"
  shows "tools (request rb) = Some (convertOpenAIToolsToAntigravity openaiTools) \<and>
         (openaiTools = None \<or> openaiTools = Some [] \<longrightarrow> tools (request rb) = Some []) \<and>
         (extractSystemInstruction cfg openaiMessages = [] \<longrightarrow>
            systemInstruction (request rb) = None)"
  using generateRequestBody_Inr [OF assms]
  by (auto simp: convertOpenAIToolsToAntigravity_def)

theorem tools_empty_system_instruction_absent_witness:
  "\<exists>rb. generateRequestBody
      \<lparr> cfg_systemInstruction = '''', cfg_top_p = JNum 1, cfg_top_k = JNum 50,
        cfg_temperature = JNum 1, cfg_max_tokens = JNum 8096, cfg_thinking_budget = JNum 16000 \<rparr>
      ''req-1''
      [\<lparr> role = ''user'', content = CString ''Hi'', tool_calls = None, tool_call_id = None \<rparr>]
      ''gemini-2.5-flash'' [] None \<lparr> projectId = ''p'', sessionId = ''s'' \<rparr> = Inr rb \<and>
    tools (request rb) = Some [] \<and> systemInstruction (request rb) = None"
proof -
  let ?cfg = "\<lparr> cfg_systemInstruction = '''', cfg_top_p = JNum 1, cfg_top_k = JNum 50,
        cfg_temperature = JNum 1, cfg_max_tokens = JNum 8096, cfg_thinking_budget = JNum 16000 \<rparr>"
  let ?ms = "[\<lparr> role = ''user'', content = CString ''Hi'', tool_calls = None, tool_call_id = None \<rparr>]"
  obtain rb where b: "generateRequestBody ?cfg ''req-1'' ?ms
      ''gemini-2.5-flash'' [] None \<lparr> projectId = ''p'', sessionId = ''s'' \<rparr> = Inr rb"
    by (simp add: generateRequestBody_def Let_def transcode_single_user)
  have s: "extractSystemInstruction ?cfg ?ms = []"
    by (simp add: extractSystemInstruction_def trim_def trimStart_def trimEnd_def)
  from tools_empty_system_instruction_absent [OF b] b s show ?thesis
    by auto
qed

text \<open>
  C9 (as stated, refuted). A configured base instruction that ends with a line feed is not
  attached as it is: the request carries it without the line feed.
\<close>

theorem system_instruction_untrimmed_counterexample:
  "\<not> isl (generateRequestBody
      \<lparr> cfg_systemInstruction = ''Be kind'' @ [CHR 0x0A], cfg_top_p = JNum 1, cfg_top_k = JNum 50,
        cfg_temperature = JNum 1, cfg_max_tokens = JNum 8096, cfg_thinking_budget = JNum 16000 \<rparr>
      ''req-1''
      [\<lparr> role = ''user'', content = CString ''Hi'', tool_calls = None, tool_call_id = None \<rparr>]
      ''gemini-2.5-flash'' [] None \<lparr> projectId = ''p'', sessionId = ''s'' \<rparr>) \<and>
   systemInstruction (request (projr (generateRequestBody
      \<lparr> cfg_systemInstruction = ''Be kind'' @ [CHR 0x0A], cfg_top_p = JNum 1, cfg_top_k = JNum 50,
        cfg_temperature = JNum 1, cfg_max_tokens = JNum 8096, cfg_thinking_budget = JNum 16000 \<rparr>
      ''req-1''
      [\<lparr> role = ''user'', content = CString ''Hi'', tool_calls = None, tool_call_id = None \<rparr>]
      ''gemini-2.5-flash'' [] None \<lparr> projectId = ''p'', sessionId = ''s'' \<rparr>)))
     = Some \<lparr> t_role = User, parts = [Text ''Be kind''] \<rparr> \<and>
   Some \<lparr> t_role = User, parts = [Text ''Be kind''] \<rparr> \<noteq>
     Some \<lparr> t_role = User, parts = [Text (''Be kind'' @ [CHR 0x0A])] \<rparr>"
  by (simp add: generateRequestBody_def Let_def transcode_single_user
      extractSystemInstruction_def trim_def trimStart_def trimEnd_def isWhiteSpace_def)

text \<open>
  C9 (amended). For every message list that does not start with a system message, the
  system instruction of the request built is the configured base instruction with leading
  and trailing white space removed (what \<^verbatim>\<open>String.prototype.trim\<close> removes, the no-break
  space included) and nothing else; the property is absent when that trimmed instruction
  is empty.
\<close>

theorem system_instruction_is_trimmed_base:
  assumes "case openaiMessages of [] \<Rightarrow> True | m # rest \<Rightarrow> role m \<noteq> ''system''"
    and "generateRequestBody cfg freshId openaiMessages modelName parameters openaiTools tok = Inr rb"
  shows "systemInstruction (request rb) =
           (if trim (cfg_systemInstruction cfg) = [] then None
            else Some \<lparr> t_role = User, parts = [Text (trim (cfg_systemInstruction cfg))] \<rparr>)"
  using generateRequestBody_Inr [OF assms(2)] extractSystemInstruction_no_leading [OF assms(1)]
  by auto

theorem system_instruction_is_trimmed_base_witness:
  "\<exists>rb. generateRequestBody
      \<lparr> cfg_systemInstruction = ''Be kind'' @ [CHR 0xA0, CHR 0x0A], cfg_top_p = JNum 1, cfg_top_k = JNum 50,
        cfg_temperature = JNum 1, cfg_max_tokens = JNum 8096, cfg_thinking_budget = JNum 16000 \<rparr>
      ''req-1''
      [\<lparr> role = ''user'', content = CString ''Hi'', tool_calls = None, tool_call_id = None \<rparr>]
      ''gemini-2.5-flash'' [] None \<lparr> projectId = ''p'', sessionId = ''s'' \<rparr> = Inr rb \<and>
    systemInstruction (request rb) = Some \<lparr> t_role = User, parts = [Text ''Be kind''] \<rparr>"
proof -
  let ?cfg = "\<lparr> cfg_systemInstruction = ''Be kind'' @ [CHR 0xA0, CHR 0x0A], cfg_top_p = JNum 1, cfg_top_k = JNum 50,
        cfg_temperature = JNum 1, cfg_max_tokens = JNum 8096, cfg_thinking_budget = JNum 16000 \<rparr>"
  let ?ms = "[\<lparr> role = ''user'', content = CString ''Hi'', tool_calls = None, tool_call_id = None \<rparr>]"
  obtain rb where b: "generateRequestBody ?cfg ''req-1'' ?ms
      ''gemini-2.5-flash'' [] None \<lparr> projectId = ''p'', sessionId = ''s'' \<rparr> = Inr rb"
    by (simp add: generateRequestBody_def Let_def transcode_single_user)
  have h: "case ?ms of [] \<Rightarrow> True | m # rest \<Rightarrow> role m \<noteq> ''system''"
    by simp
  have t: "trim (''Be kind'' @ [CHR 0xA0, CHR 0x0A]) = ''Be kind''"
    by (simp add: trim_def trimStart_def trimEnd_def isWhiteSpace_def)
  from system_instruction_is_trimmed_base [OF h b] b t show ?thesis
    by auto
qed

subsection \<open>Message history transcoder: the handlers\<close>

lemma partsOf_Nil [simp]: "partsOf r [] = {}"
  by (simp add: partsOf_def)

lemma partsOf_append [simp]: "partsOf r (S @ T) = partsOf r S \<union> partsOf r T"
  by (auto simp: partsOf_def)

lemma partsOf_single [simp]: "partsOf r [t] = (if t_role t = r then set (parts t) else {})"
  by (simp add: partsOf_def)

lemma partsOf_rev [simp]: "partsOf r (rev S) = partsOf r S"
  by (simp add: partsOf_def)

lemma partsOf_Cons: "partsOf r (t # S) = (if t_role t = r then set (parts t) else {}) \<union> partsOf r S"
  by (simp add: partsOf_def)

lemma transcodeLoop_append:
  "transcodeLoop (xs @ ys) a =
     (case transcodeLoop xs a of Inl e \<Rightarrow> Inl e | Inr a' \<Rightarrow> transcodeLoop ys a')"
  by (induction xs arbitrary: a) (auto split: sum.splits)

lemma transcodeLoop_snoc:
  "transcodeLoop (xs @ [m]) a =
     (case transcodeLoop xs a of Inl e \<Rightarrow> Inl e | Inr a' \<Rightarrow> transcodeMessage m a')"
  by (simp add: transcodeLoop_append split: sum.splits)

lemma scanParts_result:
  "scanParts tid ps fn = fn \<or> (\<exists>a. FunctionCall tid (scanParts tid ps fn) a \<in> set ps)"
  by (induction tid ps fn rule: scanParts.induct) auto

lemma scanParts_unmatched:
  "\<forall>n a. FunctionCall tid n a \<notin> set ps \<Longrightarrow> scanParts tid ps fn = fn"
  by (induction tid ps fn rule: scanParts.induct) auto

lemma scanParts_matched:
  "FunctionCall tid n a \<in> set ps \<Longrightarrow> \<exists>a'. FunctionCall tid (scanParts tid ps fn) a' \<in> set ps"
  by (induction tid ps fn rule: scanParts.induct) auto

lemma scanTurns_result:
  "scanTurns tid ts fn = fn \<or> (\<exists>a. FunctionCall tid (scanTurns tid ts fn) a \<in> partsOf Model ts)"
proof (induction ts arbitrary: fn)
  case Nil
  then show ?case by simp
next
  case (Cons t ts)
  show ?case
  proof (cases "t_role t = Model")
    case False
    then show ?thesis using Cons [of fn] by (auto simp: partsOf_Cons)
  next
    case True
    show ?thesis
    proof (cases "scanParts tid (parts t) fn = []")
      case False
      then show ?thesis
        using True scanParts_result [of tid "parts t" fn] by (auto simp: partsOf_Cons Let_def)
    next
      case e: True
      then show ?thesis
        using True Cons [of "[]"] scanParts_result [of tid "parts t" fn]
        by (auto simp: partsOf_Cons Let_def)
    qed
  qed
qed

lemma scanTurns_unmatched:
  "\<forall>n a. FunctionCall tid n a \<notin> partsOf Model ts \<Longrightarrow> scanTurns tid ts fn = fn"
proof (induction ts arbitrary: fn)
  case Nil
  then show ?case by simp
next
  case (Cons t ts)
  then have rest: "scanTurns tid ts fn' = fn'" for fn'
    by (auto simp: partsOf_Cons)
  show ?case
  proof (cases "t_role t = Model")
    case False
    then show ?thesis using rest by simp
  next
    case True
    with Cons.prems have "scanParts tid (parts t) fn = fn"
      by (intro scanParts_unmatched) (auto simp: partsOf_Cons)
    then show ?thesis using True rest by (simp add: Let_def)
  qed
qed

lemma scanTurns_matched:
  assumes "FunctionCall tid n a \<in> partsOf Model ts"
    and "\<forall>n a. FunctionCall tid n a \<in> partsOf Model ts \<longrightarrow> n \<noteq> []"
  shows "scanTurns tid ts fn \<noteq> []"
  using assms
proof (induction ts arbitrary: fn)
  case Nil
  then show ?case by simp
next
  case (Cons t ts)
  show ?case
  proof (cases "t_role t = Model")
    case False
    then show ?thesis using Cons by (auto simp: partsOf_Cons)
  next
    case True
    show ?thesis
    proof (cases "\<exists>n a. FunctionCall tid n a \<in> set (parts t)")
      case True
      then obtain n' a' where "FunctionCall tid n' a' \<in> set (parts t)" by blast
      from scanParts_matched [OF this, of fn] Cons.prems(2) \<open>t_role t = Model\<close>
      have "scanParts tid (parts t) fn \<noteq> []"
        by (auto simp: partsOf_Cons)
      then show ?thesis using \<open>t_role t = Model\<close> by (simp add: Let_def)
    next
      case False
      then have "scanParts tid (parts t) fn = fn"
        by (intro scanParts_unmatched) auto
      moreover from False Cons.prems \<open>t_role t = Model\<close>
      have "FunctionCall tid n a \<in> partsOf Model ts"
        by (auto simp: partsOf_Cons)
      ultimately show ?thesis
        using Cons.IH [of fn] Cons.IH [of "[]"] Cons.prems(2) \<open>t_role t = Model\<close>
        by (auto simp: partsOf_Cons Let_def)
    qed
  qed
qed

lemma partsOf_pushToLast:
  assumes "S \<noteq> []"
  shows "partsOf r (pushToLast S X) = partsOf r S \<union> (if t_role (last S) = r then set X else {})"
  using assms by (cases S rule: rev_cases) (auto simp: pushToLast_def)

lemma roles_pushToLast:
  assumes "S \<noteq> []"
  shows "map t_role (pushToLast S X) = map t_role S"
  using assms by (cases S rule: rev_cases) (auto simp: pushToLast_def)

lemma last_pushToLast:
  "pushToLast S X \<noteq> [] \<and> last (pushToLast S X) = (last S) \<lparr> parts := parts (last S) @ X \<rparr>"
  by (simp add: pushToLast_def)

lemma handleToolCall_Model:
  "partsOf Model (handleToolCall m S) = partsOf Model S"
  by (auto simp: handleToolCall_def Let_def partsOf_pushToLast)

lemma handleToolCall_User:
  "partsOf User (handleToolCall m S) =
     insert (FunctionResponse (tool_call_id m) (scanTurns (tool_call_id m) (rev S) []) (content m))
       (partsOf User S)"
  by (auto simp: handleToolCall_def Let_def partsOf_pushToLast)

lemma handleToolCall_last:
  "handleToolCall m S \<noteq> [] \<and> t_role (last (handleToolCall m S)) = User \<and>
   parts (last (handleToolCall m S)) \<noteq> [] \<and>
   last (parts (last (handleToolCall m S))) =
     FunctionResponse (tool_call_id m) (scanTurns (tool_call_id m) (rev S) []) (content m) \<and>
   list_ex isFunctionResponse (parts (last (handleToolCall m S)))"
  by (auto simp: handleToolCall_def Let_def last_pushToLast)

lemma handleToolCall_roles:
  "map t_role (handleToolCall m S) =
     (if S \<noteq> [] \<and> t_role (last S) = User \<and> list_ex isFunctionResponse (parts (last S))
      then map t_role S else map t_role S @ [User])"
  by (auto simp: handleToolCall_def Let_def roles_pushToLast)

lemma handleAssistantMessage_error:
  "handleAssistantMessage m S = Inl e \<longleftrightarrow> (\<exists>items. content m = CArray items)"
  by (cases e) (auto simp: handleAssistantMessage_def hasContentOf_def Let_def split: content.splits)

lemma handleAssistantMessage_User:
  "handleAssistantMessage m S = Inr S' \<Longrightarrow> partsOf User S' = partsOf User S"
  by (auto simp: handleAssistantMessage_def Let_def partsOf_pushToLast
      split: sum.splits if_splits)

lemma handleAssistantMessage_Model:
  assumes "handleAssistantMessage m S = Inr S'"
  shows "partsOf Model S \<subseteq> partsOf Model S' \<and>
         (\<forall>i n a. FunctionCall i n a \<in> partsOf Model S' \<longrightarrow>
            FunctionCall i n a \<in> partsOf Model S \<or>
            (\<exists>cs. tool_calls m = Some cs \<and> FunctionCall i n a \<in> toFunctionCall ` set cs)) \<and>
         (\<forall>cs. tool_calls m = Some cs \<longrightarrow> toFunctionCall ` set cs \<subseteq> partsOf Model S')"
  using assms
  by (auto simp: handleAssistantMessage_def Let_def partsOf_pushToLast
      split: sum.splits if_splits option.splits)

lemma handleAssistantMessage_last:
  "handleAssistantMessage m S = Inr S' \<Longrightarrow> S' \<noteq> [] \<and> t_role (last S') = Model"
  by (auto simp: handleAssistantMessage_def Let_def last_pushToLast split: sum.splits if_splits)

lemma extractItems_images:
  "\<not> list_ex isFunctionResponse (ex_images result) \<Longrightarrow>
   \<not> list_ex isFunctionResponse (ex_images (extractItems items result))"
  by (induction items arbitrary: result) (auto split: content_item.splits option.splits)

lemma extract_no_response:
  "\<not> list_ex isFunctionResponse (ex_images (extractImagesFromContent c))"
  by (auto simp: extractImagesFromContent_def extractItems_images split: content.splits)

lemma transcodeMessage_error:
  "transcodeMessage m S = Inl e \<longleftrightarrow> role m = ''assistant'' \<and> (\<exists>items. content m = CArray items)"
  by (auto simp: transcodeMessage_def handleAssistantMessage_error)

subsection \<open>Two tool calls and their results\<close>

lemma hasContentOf_blank: "blankContent c \<Longrightarrow> hasContentOf c = Inr False"
  by (auto simp: blankContent_def hasContentOf_def split: content.splits)

text \<open>
  C7. Two assistant messages, each with exactly one tool call and no non-empty text (the
  content is missing or a string of white space), followed by two tool messages that answer
  the two calls in order, give exactly two turns: a model turn holding the two functionCall
  parts and a user turn holding the two functionResponse parts.
\<close>

theorem two_calls_two_results_collapse:
  assumes "role a1 = ''assistant''" and "tool_calls a1 = Some [c1]" and "blankContent (content a1)"
    and "role a2 = ''assistant''" and "tool_calls a2 = Some [c2]" and "blankContent (content a2)"
    and "role t1 = ''tool''" and "tool_call_id t1 = call_id c1"
    and "role t2 = ''tool''" and "tool_call_id t2 = call_id c2"
  shows "openaiMessageToAntigravity [a1, a2, t1, t2] =
     Inr [\<lparr> t_role = Model,
            parts = [FunctionCall (call_id c1) (function_name c1) (function_arguments c1),
                     FunctionCall (call_id c2) (function_name c2) (function_arguments c2)] \<rparr>,
          \<lparr> t_role = User,
            parts = [FunctionResponse (call_id c1) (function_name c1) (content t1),
                     FunctionResponse (call_id c2)
                       (if call_id c2 = call_id c1 then function_name c1 else function_name c2)
                       (content t2)] \<rparr>]"
proof -
  let ?m1 = "\<lparr> t_role = Model, parts = [toFunctionCall c1] \<rparr>"
  let ?m2 = "\<lparr> t_role = Model, parts = [toFunctionCall c1, toFunctionCall c2] \<rparr>"
  have s1: "transcodeMessage a1 [] = Inr [?m1]"
    using assms(1-3) by (simp add: transcodeMessage_def handleAssistantMessage_def hasContentOf_blank)
  have s2: "transcodeMessage a2 [?m1] = Inr [?m2]"
    using assms(4-6)
    by (simp add: transcodeMessage_def handleAssistantMessage_def hasContentOf_blank pushToLast_def)
  let ?u1 = "\<lparr> t_role = User, parts = [FunctionResponse (call_id c1) (function_name c1) (content t1)] \<rparr>"
  have s3: "transcodeMessage t1 [?m2] = Inr [?m2, ?u1]"
    using assms(7,8)
    by (simp add: transcodeMessage_def handleToolCall_def toFunctionCall_def Let_def)
  let ?u2 = "\<lparr> t_role = User,
            parts = [FunctionResponse (call_id c1) (function_name c1) (content t1),
                     FunctionResponse (call_id c2)
                       (if call_id c2 = call_id c1 then function_name c1 else function_name c2)
                       (content t2)] \<rparr>"
  have s4: "transcodeMessage t2 [?m2, ?u1] = Inr [?m2, ?u2]"
    using assms(9,10)
    by (simp add: transcodeMessage_def handleToolCall_def toFunctionCall_def Let_def pushToLast_def)
  show ?thesis
    by (simp add: openaiMessageToAntigravity_def s1 s2 s3 s4) (simp add: toFunctionCall_def)
qed

theorem two_calls_two_results_collapse_witness:
  "openaiMessageToAntigravity
     [\<lparr> role = ''assistant'', content = CAbsent,
        tool_calls = Some [\<lparr> call_id = Some ''call_1'', function_name = ''search'',
                               function_arguments = ''{q:1}'' \<rparr>],
        tool_call_id = None \<rparr>,
      \<lparr> role = ''assistant'', content = CString '' '',
        tool_calls = Some [\<lparr> call_id = Some ''call_2'', function_name = ''fetch'',
                               function_arguments = ''{u:2}'' \<rparr>],
        tool_call_id = None \<rparr>,
      \<lparr> role = ''tool'', content = CString ''r1'', tool_calls = None,
        tool_call_id = Some ''call_1'' \<rparr>,
      \<lparr> role = ''tool'', content = CString ''r2'', tool_calls = None,
        tool_call_id = Some ''call_2'' \<rparr>] =
   Inr [\<lparr> t_role = Model,
          parts = [FunctionCall (Some ''call_1'') ''search'' ''{q:1}'',
                   FunctionCall (Some ''call_2'') ''fetch'' ''{u:2}''] \<rparr>,
        \<lparr> t_role = User,
          parts = [FunctionResponse (Some ''call_1'') ''search'' (CString ''r1''),
                   FunctionResponse (Some ''call_2'') ''fetch'' (CString ''r2'')] \<rparr>]"
  using two_calls_two_results_collapse
    [of "\<lparr> role = ''assistant'', content = CAbsent,
        tool_calls = Some [\<lparr> call_id = Some ''call_1'', function_name = ''search'',
                               function_arguments = ''{q:1}'' \<rparr>],
        tool_call_id = None \<rparr>"
        "\<lparr> call_id = Some ''call_1'', function_name = ''search'',
                               function_arguments = ''{q:1}'' \<rparr>"
        "\<lparr> role = ''assistant'', content = CString '' '',
        tool_calls = Some [\<lparr> call_id = Some ''call_2'', function_name = ''fetch'',
                               function_arguments = ''{u:2}'' \<rparr>],
        tool_call_id = None \<rparr>"
        "\<lparr> call_id = Some ''call_2'', function_name = ''fetch'',
                               function_arguments = ''{u:2}'' \<rparr>"
        "\<lparr> role = ''tool'', content = CString ''r1'', tool_calls = None,
        tool_call_id = Some ''call_1'' \<rparr>"
        "\<lparr> role = ''tool'', content = CString ''r2'', tool_calls = None,
        tool_call_id = Some ''call_2'' \<rparr>"]
  by (simp add: blankContent_def trim_def trimStart_def trimEnd_def isWhiteSpace_def)

subsection \<open>Tool messages without a matching call\<close>

lemma handleUserMessage_parts:
  "partsOf r S \<subseteq> partsOf r (handleUserMessage ex S)"
  by (auto simp: handleUserMessage_def)

lemma transcodeMessage_cases [case_names user assistant tool other]:
  obtains "role m = ''user'' \<or> role m = ''system''"
      and "transcodeMessage m S = Inr (handleUserMessage (extractImagesFromContent (content m)) S)"
    | "role m = ''assistant''" and "transcodeMessage m S = handleAssistantMessage m S"
    | "role m = ''tool''" and "transcodeMessage m S = Inr (handleToolCall m S)"
    | "role m \<notin> set [''user'', ''system'', ''assistant'', ''tool'']"
      and "transcodeMessage m S = Inr S"
proof (cases "role m = ''user'' \<or> role m = ''system''")
  case True
  then have "transcodeMessage m S = Inr (handleUserMessage (extractImagesFromContent (content m)) S)"
    unfolding transcodeMessage_def by presburger
  with True that(1) show ?thesis by blast
next
  case nu: False
  show ?thesis
  proof (cases "role m = ''assistant''")
    case True
    with nu have "transcodeMessage m S = handleAssistantMessage m S"
      unfolding transcodeMessage_def by presburger
    with True that(2) show ?thesis by blast
  next
    case na: False
    show ?thesis
    proof (cases "role m = ''tool''")
      case True
      with nu na have "transcodeMessage m S = Inr (handleToolCall m S)"
        unfolding transcodeMessage_def by presburger
      with True that(3) show ?thesis by blast
    next
      case False
      with nu na have "transcodeMessage m S = Inr S"
        unfolding transcodeMessage_def by presburger
      moreover from False nu na have "role m \<notin> set [''user'', ''system'', ''assistant'', ''tool'']"
        by simp
      ultimately show ?thesis using that(4) by blast
    qed
  qed
qed

lemma transcodeMessage_keeps:
  assumes "transcodeMessage m S = Inr S'"
  shows "partsOf r S \<subseteq> partsOf r S'"
proof (cases m S rule: transcodeMessage_cases)
  case user
  with assms show ?thesis by (auto simp: handleUserMessage_def)
next
  case assistant
  with assms have a: "handleAssistantMessage m S = Inr S'" by simp
  from handleAssistantMessage_User [OF a] handleAssistantMessage_Model [OF a]
  show ?thesis by (cases r) auto
next
  case tool
  with assms have "S' = handleToolCall m S" by simp
  then show ?thesis
    by (cases r) (auto simp: handleToolCall_User handleToolCall_Model)
next
  case other
  with assms show ?thesis by simp
qed

lemma transcodeLoop_keeps:
  "transcodeLoop ms S = Inr out \<Longrightarrow> partsOf r S \<subseteq> partsOf r out"
proof (induction ms arbitrary: S)
  case Nil
  then show ?case by simp
next
  case (Cons m ms)
  then obtain S' where s: "transcodeMessage m S = Inr S'" and l: "transcodeLoop ms S' = Inr out"
    by (auto split: sum.splits)
  from transcodeMessage_keeps [OF s] Cons.IH [OF l] show ?case
    by blast
qed

lemma transcodeLoop_total:
  assumes "\<forall>x \<in> set ms. role x = ''assistant'' \<longrightarrow> (\<forall>items. content x \<noteq> CArray items)"
  shows "\<exists>out. transcodeLoop ms S = Inr out"
  using assms
proof (induction ms arbitrary: S)
  case Nil
  then show ?case by simp
next
  case (Cons m ms)
  have "\<not> (\<exists>e. transcodeMessage m S = Inl e)"
    using Cons.prems by (auto simp: transcodeMessage_error)
  then obtain S' where "transcodeMessage m S = Inr S'"
    by (cases "transcodeMessage m S") auto
  then show ?case
    using Cons.IH [of S'] Cons.prems by simp
qed

text \<open>
  C6. Let a tool message come after messages that were translated into the turns \<open>S\<close>,
  and let no functionCall part of a model turn of \<open>S\<close> carry its tool call id. Then the
  message is translated without error: the last part of the last turn, a user turn, is a
  functionResponse part with that id, the empty name and the content of the message as
  output. The translation of the whole list goes on from there with the remaining
  messages, it returns a turn list whenever no remaining assistant message has a list
  content (the only input on which a handler throws), and every turn list it returns
  still holds the part in a user turn.
\<close>

theorem unmatched_tool_call_degrades:
  assumes "role m = ''tool''"
    and "transcodeLoop before [] = Inr S"
    and "\<forall>t \<in> set S. t_role t = Model \<longrightarrow>
           (\<forall>n a. FunctionCall (tool_call_id m) n a \<notin> set (parts t))"
  shows "\<exists>S'. transcodeMessage m S = Inr S' \<and>
           S' \<noteq> [] \<and> t_role (last S') = User \<and> parts (last S') \<noteq> [] \<and>
           last (parts (last S')) = FunctionResponse (tool_call_id m) [] (content m) \<and>
           openaiMessageToAntigravity (before @ m # rest) = transcodeLoop rest S' \<and>
           (\<forall>out. openaiMessageToAntigravity (before @ m # rest) = Inr out \<longrightarrow>
              (\<exists>t \<in> set out. t_role t = User \<and>
                 FunctionResponse (tool_call_id m) [] (content m) \<in> set (parts t))) \<and>
           ((\<forall>x \<in> set rest. role x = ''assistant'' \<longrightarrow> (\<forall>items. content x \<noteq> CArray items)) \<longrightarrow>
              (\<exists>out. openaiMessageToAntigravity (before @ m # rest) = Inr out))"
proof -
  let ?S' = "handleToolCall m S"
  let ?fr = "FunctionResponse (tool_call_id m) [] (content m)"
  have "\<forall>n a. FunctionCall (tool_call_id m) n a \<notin> partsOf Model (rev S)"
    using assms(3) by (auto simp: partsOf_def split: if_splits)
  then have name: "scanTurns (tool_call_id m) (rev S) [] = []"
    by (rule scanTurns_unmatched)
  have step: "transcodeMessage m S = Inr ?S'"
    using assms(1) by (simp add: transcodeMessage_def)
  have lst: "?S' \<noteq> [] \<and> t_role (last ?S') = User \<and> parts (last ?S') \<noteq> [] \<and>
      last (parts (last ?S')) = ?fr"
    using handleToolCall_last [of m S] by (simp add: name)
  have whole: "openaiMessageToAntigravity (before @ m # rest) = transcodeLoop rest ?S'"
    by (simp add: openaiMessageToAntigravity_def transcodeLoop_append assms(2) step)
  have "?fr \<in> partsOf User ?S'"
    by (simp add: handleToolCall_User name)
  then have kept: "?fr \<in> partsOf User out" if "transcodeLoop rest ?S' = Inr out" for out
    using transcodeLoop_keeps [OF that, of User] by blast
  have emitted: "\<exists>t \<in> set out. t_role t = User \<and> ?fr \<in> set (parts t)"
    if "openaiMessageToAntigravity (before @ m # rest) = Inr out" for out
    using kept [of out] that whole by (auto simp: partsOf_def split: if_splits)
  have total: "\<exists>out. openaiMessageToAntigravity (before @ m # rest) = Inr out"
    if "\<forall>x \<in> set rest. role x = ''assistant'' \<longrightarrow> (\<forall>items. content x \<noteq> CArray items)"
    using transcodeLoop_total [OF that, of ?S'] whole by simp
  from step lst whole emitted total show ?thesis
    by blast
qed

theorem unmatched_tool_call_degrades_witness:
  "\<exists>S'. transcodeMessage
          \<lparr> role = ''tool'', content = CString ''r'', tool_calls = None,
            tool_call_id = Some ''call_9'' \<rparr>
          [\<lparr> t_role = Model, parts = [FunctionCall (Some ''call_1'') ''search'' ''{}''] \<rparr>] = Inr S' \<and>
        last (parts (last S')) = FunctionResponse (Some ''call_9'') [] (CString ''r'') \<and>
        openaiMessageToAntigravity
          [\<lparr> role = ''assistant'', content = CAbsent,
             tool_calls = Some [\<lparr> call_id = Some ''call_1'', function_name = ''search'',
                                    function_arguments = ''{}'' \<rparr>],
             tool_call_id = None \<rparr>,
           \<lparr> role = ''tool'', content = CString ''r'', tool_calls = None,
             tool_call_id = Some ''call_9'' \<rparr>] = Inr S'"
proof -
  let ?a = "\<lparr> role = ''assistant'', content = CAbsent,
             tool_calls = Some [\<lparr> call_id = Some ''call_1'', function_name = ''search'',
                                    function_arguments = ''{}'' \<rparr>],
             tool_call_id = None \<rparr>"
  let ?m = "\<lparr> role = ''tool'', content = CString ''r'', tool_calls = None,
             tool_call_id = Some ''call_9'' \<rparr>"
  let ?S = "[\<lparr> t_role = Model, parts = [FunctionCall (Some ''call_1'') ''search'' ''{}''] \<rparr>]"
  have h1: "role ?m = ''tool''"
    by simp
  have h2: "transcodeLoop [?a] [] = Inr ?S"
    by (simp add: transcodeMessage_def handleAssistantMessage_def hasContentOf_def
        toFunctionCall_def)
  have h3: "\<forall>t \<in> set ?S. t_role t = Model \<longrightarrow>
      (\<forall>n a. FunctionCall (tool_call_id ?m) n a \<notin> set (parts t))"
    by simp
  from unmatched_tool_call_degrades [OF h1 h2 h3, of "[]"] show ?thesis
    by auto
qed

subsection \<open>Roles of adjacent turns\<close>

lemma hasContentOf_False: "hasContentOf c = Inr False \<longleftrightarrow> blankContent c"
  by (auto simp: blankContent_def hasContentOf_def trim_def trimStart_def trimEnd_def
      split: content.splits)

lemma step_user:
  assumes "transcodeMessage m S = Inr (handleUserMessage (extractImagesFromContent (content m)) S)"
    and "transcodeMessage m S = Inr out"
  shows "map t_role out = map t_role S @ [User] \<and> out \<noteq> [] \<and> t_role (last out) = User \<and>
         \<not> list_ex isFunctionResponse (parts (last out))"
  using assms extract_no_response [of "content m"]
  by (auto simp: handleUserMessage_def)

lemma step_assistant:
  assumes "handleAssistantMessage m S = Inr out"
  shows "map t_role out =
           (if S \<noteq> [] \<and> t_role (last S) = Model \<and> toolCallsOnly m
            then map t_role S else map t_role S @ [Model]) \<and>
         out \<noteq> [] \<and> t_role (last out) = Model"
proof -
  from assms obtain hc where hc: "hasContentOf (content m) = Inr hc"
    by (auto simp: handleAssistantMessage_def Let_def split: sum.splits)
  have tco: "toolCallsOnly m \<longleftrightarrow>
      (case tool_calls m of None \<Rightarrow> False | Some cs \<Rightarrow> length cs > 0) \<and> \<not> hc"
    using hc hasContentOf_False [of "content m"]
    by (auto simp: toolCallsOnly_def split: option.splits)
  show ?thesis
    using assms hc handleAssistantMessage_last [OF assms]
    by (auto simp: handleAssistantMessage_def Let_def tco roles_pushToLast)
qed

lemma step_tool:
  "map t_role (handleToolCall m S) =
     (if S \<noteq> [] \<and> t_role (last S) = User \<and> list_ex isFunctionResponse (parts (last S))
      then map t_role S else map t_role S @ [User]) \<and>
   handleToolCall m S \<noteq> [] \<and> t_role (last (handleToolCall m S)) = User \<and>
   list_ex isFunctionResponse (parts (last (handleToolCall m S)))"
  using handleToolCall_last [of m S] handleToolCall_roles [of m S] by simp


lemma transcode_roles_invariant:
  assumes "transcodeLoop ms [] = Inr out"
  shows "(distinct_adj (map t_role out) \<longleftrightarrow>
            successively (\<lambda>p c. \<not> opensSameRoleTurn p c) (filter knownRole ms)) \<and>
         (out = [] \<longleftrightarrow> filter knownRole ms = []) \<and>
         (out \<noteq> [] \<longrightarrow>
            (t_role (last out) = Model \<longleftrightarrow> role (last (filter knownRole ms)) = ''assistant'') \<and>
            (t_role (last out) = User \<and> list_ex isFunctionResponse (parts (last out)) \<longleftrightarrow>
               role (last (filter knownRole ms)) = ''tool''))"
  using assms
proof (induction ms arbitrary: out rule: rev_induct)
  case Nil
  then show ?case by simp
next
  case (snoc m ms)
  let ?F = "filter knownRole ms"
  let ?P = "\<lambda>p c. \<not> opensSameRoleTurn p c"
  from snoc.prems obtain S where S: "transcodeLoop ms [] = Inr S"
    and step: "transcodeMessage m S = Inr out"
    by (auto simp: transcodeLoop_snoc split: sum.splits)
  note IH = snoc.IH [OF S]
  have adj: "distinct_adj (map t_role S) \<longleftrightarrow> successively ?P ?F"
    and emp: "S = [] \<longleftrightarrow> ?F = []"
    using IH by blast+
  have lastM: "t_role (last S) = Model \<longleftrightarrow> role (last ?F) = ''assistant''"
    and lastR: "t_role (last S) = User \<and> list_ex isFunctionResponse (parts (last S)) \<longleftrightarrow>
       role (last ?F) = ''tool''" if "S \<noteq> []"
    using IH that by blast+
  have kn: "?F \<noteq> [] \<Longrightarrow> knownRole (last ?F)"
    using last_in_set [of ?F] by auto
  show ?case
  proof (cases m S rule: transcodeMessage_cases)
    case other
    then have "\<not> knownRole m" and "out = S"
      using step by (auto simp: knownRole_def)
    then show ?thesis using IH by simp
  next
    case user
    then have k: "knownRole m" and nr: "role m \<noteq> ''assistant''" "role m \<noteq> ''tool''"
      by (auto simp: knownRole_def)
    from step_user [OF user(2) step]
    have r: "map t_role out = map t_role S @ [User]" and ne: "out \<noteq> []"
      and l: "t_role (last out) = User" "\<not> list_ex isFunctionResponse (parts (last out))"
      by blast+
    have "distinct_adj (map t_role out) \<longleftrightarrow>
        distinct_adj (map t_role S) \<and> (S = [] \<or> t_role (last S) \<noteq> User)"
      by (cases "S = []") (auto simp: r distinct_adj_append_iff last_map)
    moreover have "successively ?P (filter knownRole (ms @ [m])) \<longleftrightarrow>
        successively ?P ?F \<and> (?F = [] \<or> role (last ?F) = ''assistant'')"
      using k nr by (auto simp: successively_append_iff opensSameRoleTurn_def)
    moreover have "t_role (last S) \<noteq> User \<longleftrightarrow> role (last ?F) = ''assistant''" if "S \<noteq> []"
      using lastM [OF that] by (cases "t_role (last S)") auto
    ultimately have "distinct_adj (map t_role out) \<longleftrightarrow>
        successively ?P (filter knownRole (ms @ [m]))"
      using adj emp by blast
    then show ?thesis
      using k ne l nr by simp
  next
    case assistant
    then have k: "knownRole m" and a: "handleAssistantMessage m S = Inr out"
      using step by (auto simp: knownRole_def)
    from step_assistant [OF a]
    have r: "map t_role out =
           (if S \<noteq> [] \<and> t_role (last S) = Model \<and> toolCallsOnly m
            then map t_role S else map t_role S @ [Model])"
      and ne: "out \<noteq> []" and l: "t_role (last out) = Model"
      by blast+
    have "distinct_adj (map t_role out) \<longleftrightarrow>
        distinct_adj (map t_role S) \<and>
        (S = [] \<or> t_role (last S) \<noteq> Model \<or> toolCallsOnly m)"
      by (cases "S = []") (auto simp: r distinct_adj_append_iff last_map)
    moreover have "successively ?P (filter knownRole (ms @ [m])) \<longleftrightarrow>
        successively ?P ?F \<and> (?F = [] \<or> role (last ?F) \<noteq> ''assistant'' \<or> toolCallsOnly m)"
      using k assistant(1) by (auto simp: successively_append_iff opensSameRoleTurn_def)
    ultimately have "distinct_adj (map t_role out) \<longleftrightarrow>
        successively ?P (filter knownRole (ms @ [m]))"
      using adj emp lastM by blast
    then show ?thesis
      using k ne l assistant(1) by simp
  next
    case tool
    then have k: "knownRole m" and o: "out = handleToolCall m S"
      using step by (auto simp: knownRole_def)
    from step_tool [of m S] o
    have r: "map t_role out =
           (if S \<noteq> [] \<and> t_role (last S) = User \<and> list_ex isFunctionResponse (parts (last S))
            then map t_role S else map t_role S @ [User])"
      and ne: "out \<noteq> []" and l: "t_role (last out) = User"
        "list_ex isFunctionResponse (parts (last out))"
      by simp_all
    have "distinct_adj (map t_role out) \<longleftrightarrow>
        distinct_adj (map t_role S) \<and>
        (S = [] \<or> t_role (last S) \<noteq> User \<or> list_ex isFunctionResponse (parts (last S)))"
      by (cases "S = []") (auto simp: r distinct_adj_append_iff last_map)
    moreover have "successively ?P (filter knownRole (ms @ [m])) \<longleftrightarrow>
        successively ?P ?F \<and>
        (?F = [] \<or> \<not> (role (last ?F) = ''user'' \<or> role (last ?F) = ''system''))"
      using k tool(1) by (auto simp: successively_append_iff opensSameRoleTurn_def)
    moreover have "t_role (last S) \<noteq> User \<or> list_ex isFunctionResponse (parts (last S)) \<longleftrightarrow>
        \<not> (role (last ?F) = ''user'' \<or> role (last ?F) = ''system'')" if "S \<noteq> []"
    proof -
      have "?F \<noteq> []" using that emp by simp
      from kn [OF this] have "role (last ?F) = ''user'' \<or> role (last ?F) = ''system'' \<or>
          role (last ?F) = ''assistant'' \<or> role (last ?F) = ''tool''"
        by (simp add: knownRole_def)
      then show ?thesis
        using lastM [OF that] lastR [OF that] by (cases "t_role (last S)") auto
    qed
    ultimately have "distinct_adj (map t_role out) \<longleftrightarrow>
        successively ?P (filter knownRole (ms @ [m]))"
      using adj emp by blast
    then show ?thesis
      using k ne l tool(1) by simp
  qed
qed

lemma pushToLast_explicit:
  "pushToLast S X = butlast S @ [\<lparr> t_role = t_role (last S), parts = parts (last S) @ X \<rparr>]"
  by (cases "last S") (simp add: pushToLast_def)

lemma startIndex_drop:
  "drop (startIndex ms) ms = dropWhile (\<lambda>x. role x = ''system'') ms"
  by (induction ms) auto

lemma transcode_step_characterised:
  assumes S: "transcodeLoop before [] = Inr S"
    and step: "transcodeMessage m S = Inr out"
  shows "if \<not> knownRole m then out = S
         else if appendedToPrevious before m
           then S \<noteq> [] \<and>
                out = butlast S @
                  [\<lparr> t_role = t_role (last S), parts = parts (last S) @ messageParts S m \<rparr>]
           else out = S @ [\<lparr> t_role = messageRole m, parts = messageParts S m \<rparr>]"
proof -
  let ?F = "filter knownRole before"
  note I = transcode_roles_invariant [OF S]
  have emp: "S = [] \<longleftrightarrow> ?F = []"
    using I by blast
  have lastM: "t_role (last S) = Model \<longleftrightarrow> role (last ?F) = ''assistant''"
    and lastR: "t_role (last S) = User \<and> list_ex isFunctionResponse (parts (last S)) \<longleftrightarrow>
       role (last ?F) = ''tool''" if "S \<noteq> []"
    using I that by blast+
  show ?thesis
  proof (cases m S rule: transcodeMessage_cases)
    case other
    then show ?thesis using step by (simp add: knownRole_def)
  next
    case user
    then have k: "knownRole m" and n: "\<not> appendedToPrevious before m"
      by (auto simp: knownRole_def appendedToPrevious_def)
    from user step have "out = S @ [\<lparr> t_role = messageRole m, parts = messageParts S m \<rparr>]"
      by (auto simp: handleUserMessage_def messageRole_def messageParts_def)
    with k n show ?thesis by simp
  next
    case tool
    then have k: "knownRole m" and o: "out = handleToolCall m S"
      using step by (auto simp: knownRole_def)
    have mp: "messageParts S m =
        [FunctionResponse (tool_call_id m) (scanTurns (tool_call_id m) (rev S) []) (content m)]"
      using tool(1) by (simp add: messageParts_def)
    have mr: "messageRole m = User"
      using tool(1) by (simp add: messageRole_def)
    have a: "appendedToPrevious before m \<longleftrightarrow>
        S \<noteq> [] \<and> t_role (last S) = User \<and> list_ex isFunctionResponse (parts (last S))"
      using tool(1) emp lastR by (auto simp: appendedToPrevious_def)
    show ?thesis
      using k o unfolding a
      by (auto simp: handleToolCall_def Let_def mp mr pushToLast_explicit)
  next
    case assistant
    then have k: "knownRole m" and h: "handleAssistantMessage m S = Inr out"
      using step by (auto simp: knownRole_def)
    from h obtain hc where hc: "hasContentOf (content m) = Inr hc"
      by (auto simp: handleAssistantMessage_def Let_def split: sum.splits)
    have bl: "blankContent (content m) \<longleftrightarrow> \<not> hc"
      using hc hasContentOf_False [of "content m"] by auto
    have tco: "toolCallsOnly m \<longleftrightarrow>
        (case tool_calls m of None \<Rightarrow> False | Some cs \<Rightarrow> length cs > 0) \<and> \<not> hc"
      using bl by (auto simp: toolCallsOnly_def split: option.splits)
    have tools: "(if (case tool_calls m of None \<Rightarrow> False | Some cs \<Rightarrow> length cs > 0)
         then map toFunctionCall (case tool_calls m of None \<Rightarrow> [] | Some cs \<Rightarrow> cs) else []) =
        map toFunctionCall (callsOf m)"
      by (auto simp: callsOf_def split: option.splits)
    have mp: "messageParts S m =
        (if hc then [Text (contentTrimEnd (content m))] else []) @ map toFunctionCall (callsOf m)"
      using assistant(1) bl by (simp add: messageParts_def)
    have mr: "messageRole m = Model"
      using assistant(1) by (simp add: messageRole_def)
    have a: "appendedToPrevious before m \<longleftrightarrow>
        S \<noteq> [] \<and> t_role (last S) = Model \<and>
        (case tool_calls m of None \<Rightarrow> False | Some cs \<Rightarrow> length cs > 0) \<and> \<not> hc"
      using assistant(1) emp lastM tco by (auto simp: appendedToPrevious_def)
    have "out = (if S \<noteq> [] \<and> t_role (last S) = Model \<and>
          (case tool_calls m of None \<Rightarrow> False | Some cs \<Rightarrow> length cs > 0) \<and> \<not> hc
        then pushToLast S (map toFunctionCall (callsOf m))
        else S @ [\<lparr> t_role = Model,
               parts = (if hc then [Text (contentTrimEnd (content m))] else []) @
                       map toFunctionCall (callsOf m) \<rparr>])"
      using h hc unfolding handleAssistantMessage_def Let_def tools by (auto split: if_splits)
    then show ?thesis
      using k unfolding a by (auto simp: mp mr pushToLast_explicit)
  qed
qed


lemma generateRequestBody_contents:
  assumes "generateRequestBody cfg freshId openaiMessages modelName parameters openaiTools tok = Inr rb"
  shows "openaiMessageToAntigravity (drop (startIndex openaiMessages) openaiMessages) =
         Inr (contents (request rb))"
proof -
  from generateRequestBody_Inr [OF assms] obtain cs where
    c: "openaiMessageToAntigravity (drop (startIndex openaiMessages) openaiMessages) = Inr cs"
    and rb: "rb = \<lparr> project = projectId tok, requestId = freshId,
            request = \<lparr> contents = cs,
              tools = Some (convertOpenAIToolsToAntigravity openaiTools),
              toolConfig = \<lparr> functionCallingConfig = \<lparr> mode = ''VALIDATED'' \<rparr> \<rparr>,
              generationConfig = generateGenerationConfig cfg parameters
                (isEnableThinking modelName) (modelMapping modelName),
              req_sessionId = sessionId tok,
              systemInstruction =
                (if extractSystemInstruction cfg openaiMessages \<noteq> []
                 then Some \<lparr> t_role = User, parts = [Text (extractSystemInstruction cfg openaiMessages)] \<rparr>
                 else None) \<rparr>,
            model = modelMapping modelName, userAgent = ''antigravity'' \<rparr>"
    by blast
  have "contents (request rb) = cs"
    by (simp add: rb)
  with c show ?thesis by simp
qed

text \<open>
  C1 (as stated, refuted). Two plain user messages give two adjacent user turns.
\<close>

theorem adjacent_user_turns_counterexample:
  "openaiMessageToAntigravity
     [\<lparr> role = ''user'', content = CString ''a'', tool_calls = None, tool_call_id = None \<rparr>,
      \<lparr> role = ''user'', content = CString ''b'', tool_calls = None, tool_call_id = None \<rparr>] =
   Inr [\<lparr> t_role = User, parts = [Text ''a''] \<rparr>, \<lparr> t_role = User, parts = [Text ''b''] \<rparr>] \<and>
   \<not> distinct_adj (map t_role
         [\<lparr> t_role = User, parts = [Text ''a''] \<rparr>, \<lparr> t_role = User, parts = [Text ''b''] \<rparr>])"
  by (simp add: openaiMessageToAntigravity_def transcodeMessage_def handleUserMessage_def
      extractImagesFromContent_def)

text \<open>
  C1 (amended). Let \<open>ms\<close> be a message list that the transcoder translates into \<open>out\<close>; in a
  request built from a client message list, \<open>ms\<close> is that list without its leading system
  messages and \<open>out\<close> is the \<open>contents\<close> of the request. Then \<open>out\<close> has no two adjacent
  turns of the same role exactly when, among the messages of a handled role taken in order,
  none opens a turn of the role of the turn before it: no user or system message comes
  directly after a user, system or tool message, no tool message directly after a user or
  system message, and no assistant message with text or without tool calls directly after
  an assistant message. Moreover the last message of \<open>ms\<close> changes the turn list of the
  messages before it in this way only: a message of another role leaves it as it is; a tool
  message directly after a tool message, and an assistant message with tool calls only
  directly after an assistant message, have their parts appended to the part list of the
  last turn; every other message, so every user or system message, adds one new turn that
  holds its parts.
\<close>

theorem adjacent_roles_characterised:
  assumes "openaiMessageToAntigravity ms = Inr out"
  shows "(distinct_adj (map t_role out) \<longleftrightarrow>
            successively (\<lambda>p c. \<not> opensSameRoleTurn p c) (filter knownRole ms)) \<and>
         (\<forall>before m. ms = before @ [m] \<longrightarrow>
            (\<exists>S. openaiMessageToAntigravity before = Inr S \<and>
               (if \<not> knownRole m then out = S
                else if appendedToPrevious before m
                  then S \<noteq> [] \<and>
                       out = butlast S @
                         [\<lparr> t_role = t_role (last S),
                            parts = parts (last S) @ messageParts S m \<rparr>]
                  else out = S @ [\<lparr> t_role = messageRole m, parts = messageParts S m \<rparr>]))) \<and>
         (\<forall>cfg freshId openaiMessages modelName parameters openaiTools tok rb.
            generateRequestBody cfg freshId openaiMessages modelName parameters openaiTools tok
              = Inr rb \<and>
            dropWhile (\<lambda>x. role x = ''system'') openaiMessages = ms \<longrightarrow>
            contents (request rb) = out)"
proof (intro conjI allI impI)
  show "distinct_adj (map t_role out) \<longleftrightarrow>
      successively (\<lambda>p c. \<not> opensSameRoleTurn p c) (filter knownRole ms)"
    using transcode_roles_invariant [of ms out] assms
    by (simp add: openaiMessageToAntigravity_def)
next
  fix before m
  assume "ms = before @ [m]"
  with assms have l: "transcodeLoop (before @ [m]) [] = Inr out"
    by (simp add: openaiMessageToAntigravity_def)
  then obtain S where S: "transcodeLoop before [] = Inr S"
    and step: "transcodeMessage m S = Inr out"
    unfolding transcodeLoop_snoc by (cases "transcodeLoop before []") simp_all
  have "openaiMessageToAntigravity before = Inr S"
    using S by (simp add: openaiMessageToAntigravity_def)
  with transcode_step_characterised [OF S step]
  show "\<exists>S. openaiMessageToAntigravity before = Inr S \<and>
      (if \<not> knownRole m then out = S
       else if appendedToPrevious before m
         then S \<noteq> [] \<and>
              out = butlast S @
                [\<lparr> t_role = t_role (last S), parts = parts (last S) @ messageParts S m \<rparr>]
         else out = S @ [\<lparr> t_role = messageRole m, parts = messageParts S m \<rparr>])"
    by (intro exI [of _ S] conjI)
next
  fix cfg freshId openaiMessages modelName parameters openaiTools tok rb
  assume a: "generateRequestBody cfg freshId openaiMessages modelName parameters openaiTools tok
      = Inr rb \<and> dropWhile (\<lambda>x. role x = ''system'') openaiMessages = ms"
  then have g: "generateRequestBody cfg freshId openaiMessages modelName parameters openaiTools tok
      = Inr rb"
    and d: "drop (startIndex openaiMessages) openaiMessages = ms"
    by (simp_all add: startIndex_drop)
  from generateRequestBody_contents [OF g] d assms
  show "contents (request rb) = out"
    by simp
qed

theorem adjacent_roles_characterised_witness:
  "\<exists>out. openaiMessageToAntigravity
      [\<lparr> role = ''user'', content = CString ''Hi'', tool_calls = None, tool_call_id = None \<rparr>,
       \<lparr> role = ''assistant'', content = CString ''Let me look'',
         tool_calls = Some [\<lparr> call_id = Some ''call_1'', function_name = ''search'',
                                function_arguments = ''{}'' \<rparr>],
         tool_call_id = None \<rparr>,
       \<lparr> role = ''assistant'', content = CString [CHR 0xA0],
         tool_calls = Some [\<lparr> call_id = Some ''call_2'', function_name = ''fetch'',
                                function_arguments = ''{}'' \<rparr>],
         tool_call_id = None \<rparr>,
       \<lparr> role = ''tool'', content = CString ''r1'', tool_calls = None,
         tool_call_id = Some ''call_1'' \<rparr>,
       \<lparr> role = ''tool'', content = CString ''r2'', tool_calls = None,
         tool_call_id = Some ''call_2'' \<rparr>] = Inr out \<and>
     distinct_adj (map t_role out) \<and>
     (\<exists>S. openaiMessageToAntigravity
        [\<lparr> role = ''user'', content = CString ''Hi'', tool_calls = None, tool_call_id = None \<rparr>,
         \<lparr> role = ''assistant'', content = CString ''Let me look'',
           tool_calls = Some [\<lparr> call_id = Some ''call_1'', function_name = ''search'',
                                  function_arguments = ''{}'' \<rparr>],
           tool_call_id = None \<rparr>,
         \<lparr> role = ''assistant'', content = CString [CHR 0xA0],
           tool_calls = Some [\<lparr> call_id = Some ''call_2'', function_name = ''fetch'',
                                  function_arguments = ''{}'' \<rparr>],
           tool_call_id = None \<rparr>,
         \<lparr> role = ''tool'', content = CString ''r1'', tool_calls = None,
           tool_call_id = Some ''call_1'' \<rparr>] = Inr S \<and>
        S \<noteq> [] \<and>
        out = butlast S @
          [\<lparr> t_role = t_role (last S),
             parts = parts (last S) @
               [FunctionResponse (Some ''call_2'') (scanTurns (Some ''call_2'') (rev S) [])
                  (CString ''r2'')] \<rparr>])"
proof -
  let ?u = "\<lparr> role = ''user'', content = CString ''Hi'', tool_calls = None, tool_call_id = None \<rparr>"
  let ?a1 = "\<lparr> role = ''assistant'', content = CString ''Let me look'',
         tool_calls = Some [\<lparr> call_id = Some ''call_1'', function_name = ''search'',
                                function_arguments = ''{}'' \<rparr>],
         tool_call_id = None \<rparr>"
  let ?a2 = "\<lparr> role = ''assistant'', content = CString [CHR 0xA0],
         tool_calls = Some [\<lparr> call_id = Some ''call_2'', function_name = ''fetch'',
                                function_arguments = ''{}'' \<rparr>],
         tool_call_id = None \<rparr>"
  let ?t1 = "\<lparr> role = ''tool'', content = CString ''r1'', tool_calls = None,
         tool_call_id = Some ''call_1'' \<rparr>"
  let ?t2 = "\<lparr> role = ''tool'', content = CString ''r2'', tool_calls = None,
         tool_call_id = Some ''call_2'' \<rparr>"
  let ?before = "[?u, ?a1, ?a2, ?t1]"
  have "\<exists>out. transcodeLoop (?before @ [?t2]) [] = Inr out"
    by (rule transcodeLoop_total) simp
  then obtain out where b: "openaiMessageToAntigravity (?before @ [?t2]) = Inr out"
    by (auto simp: openaiMessageToAntigravity_def)
  have h: "successively (\<lambda>p c. \<not> opensSameRoleTurn p c) (filter knownRole (?before @ [?t2]))"
    by (simp add: knownRole_def opensSameRoleTurn_def toolCallsOnly_def blankContent_def
        trim_def trimStart_def trimEnd_def isWhiteSpace_def)
  have k: "knownRole ?t2"
    by (simp add: knownRole_def)
  have a: "appendedToPrevious ?before ?t2"
    by (simp add: appendedToPrevious_def knownRole_def)
  from k have nk: "(\<not> knownRole ?t2) = False"
    by simp
  from a have ap: "appendedToPrevious ?before ?t2 = True"
    by simp
  have p: "messageParts S ?t2 =
      [FunctionResponse (Some ''call_2'') (scanTurns (Some ''call_2'') (rev S) []) (CString ''r2'')]"
    for S
    by (simp add: messageParts_def)
  note T = adjacent_roles_characterised [OF b]
  from T h have 1: "distinct_adj (map t_role out)"
    by blast
  from T [THEN conjunct2, THEN conjunct1, rule_format, of ?before ?t2]
  have "\<exists>S. openaiMessageToAntigravity ?before = Inr S \<and>
      (if \<not> knownRole ?t2 then out = S
       else if appendedToPrevious ?before ?t2
         then S \<noteq> [] \<and>
              out = butlast S @
                [\<lparr> t_role = t_role (last S), parts = parts (last S) @ messageParts S ?t2 \<rparr>]
         else out = S @ [\<lparr> t_role = messageRole ?t2, parts = messageParts S ?t2 \<rparr>])"
    by simp
  then have 2: "\<exists>S. openaiMessageToAntigravity ?before = Inr S \<and> S \<noteq> [] \<and>
      out = butlast S @
        [\<lparr> t_role = t_role (last S),
           parts = parts (last S) @
             [FunctionResponse (Some ''call_2'') (scanTurns (Some ''call_2'') (rev S) [])
                (CString ''r2'')] \<rparr>]"
    unfolding nk ap if_False if_True p .
  from b 1 2 show ?thesis
    by (intro exI [of _ out]) simp
qed

subsection \<open>Names of function responses\<close>

lemma handleAssistantMessage_Model_parts:
  assumes "handleAssistantMessage m S = Inr S'"
  shows "partsOf Model S' \<subseteq> partsOf Model S \<union> range Text \<union> toFunctionCall ` set (callsOf m)"
    and "toFunctionCall ` set (callsOf m) \<subseteq> partsOf Model S'"
  using assms
  by (auto simp: handleAssistantMessage_def Let_def partsOf_pushToLast callsOf_def
      split: sum.splits if_splits option.splits)

lemma assistants_phase:
  assumes "\<forall>a \<in> set as. role a = ''assistant''"
    and "transcodeLoop as S = Inr out"
  shows "partsOf User out = partsOf User S \<and>
         partsOf Model out \<subseteq> partsOf Model S \<union> range Text \<union>
           toFunctionCall ` set (concat (map callsOf as)) \<and>
         toFunctionCall ` set (concat (map callsOf as)) \<subseteq> partsOf Model out"
  using assms
proof (induction as arbitrary: S)
  case Nil
  then show ?case by simp
next
  case (Cons a as)
  from Cons.prems obtain S' where s: "transcodeMessage a S = Inr S'"
    and l: "transcodeLoop as S' = Inr out"
    by (auto split: sum.splits)
  have ra: "role a = ''assistant''" using Cons.prems by simp
  then have h: "handleAssistantMessage a S = Inr S'"
    using s by (simp add: transcodeMessage_def)
  from Cons.prems have "\<forall>a \<in> set as. role a = ''assistant''" by simp
  note IH = Cons.IH [OF this l]
  note A = handleAssistantMessage_User [OF h] handleAssistantMessage_Model_parts [OF h]
  have keep: "partsOf Model S' \<subseteq> partsOf Model out"
    by (rule transcodeLoop_keeps [OF l])
  have u: "partsOf User out = partsOf User S"
    using IH A(1) by simp
  have c: "set (concat (map callsOf (a # as))) = set (callsOf a) \<union> set (concat (map callsOf as))"
    by simp
  have sub: "partsOf Model out \<subseteq> partsOf Model S \<union> range Text \<union>
      toFunctionCall ` set (concat (map callsOf (a # as)))"
    unfolding c image_Un using IH A(2) by blast
  have sup: "toFunctionCall ` set (concat (map callsOf (a # as))) \<subseteq> partsOf Model out"
    unfolding c image_Un using IH A(3) keep by blast
  from u sub sup show ?case
    by blast
qed

lemma tools_phase:
  assumes "\<forall>t \<in> set ts. role t = ''tool''"
    and "\<forall>t \<in> set ts. \<exists>n a. FunctionCall (tool_call_id t) n a \<in> partsOf Model S"
    and "\<forall>i n a. FunctionCall i n a \<in> partsOf Model S \<longrightarrow> n \<noteq> []"
    and "transcodeLoop ts S = Inr out"
  shows "partsOf Model out = partsOf Model S \<and>
         (\<forall>p \<in> partsOf User out. p \<in> partsOf User S \<or>
            (\<exists>i n c a. p = FunctionResponse i n c \<and> n \<noteq> [] \<and>
               FunctionCall i n a \<in> partsOf Model S))"
  using assms
proof (induction ts arbitrary: S)
  case Nil
  then show ?case by simp
next
  case (Cons t ts)
  let ?S' = "handleToolCall t S"
  let ?n = "scanTurns (tool_call_id t) (rev S) []"
  have rt: "role t = ''tool''" using Cons.prems(1) by simp
  then have l: "transcodeLoop ts ?S' = Inr out"
    using Cons.prems(4) by (simp add: transcodeMessage_def)
  have M: "partsOf Model ?S' = partsOf Model S"
    by (rule handleToolCall_Model)
  from Cons.prems(2) obtain n0 a0 where
    "FunctionCall (tool_call_id t) n0 a0 \<in> partsOf Model (rev S)"
    by auto
  moreover have "\<forall>n a. FunctionCall (tool_call_id t) n a \<in> partsOf Model (rev S) \<longrightarrow> n \<noteq> []"
    using Cons.prems(3) by simp
  ultimately have ne: "?n \<noteq> []"
    by (rule scanTurns_matched)
  with scanTurns_result [of "tool_call_id t" "rev S" "[]"]
  obtain a where fc: "FunctionCall (tool_call_id t) ?n a \<in> partsOf Model S"
    by auto
  have IH: "partsOf Model out = partsOf Model ?S' \<and>
      (\<forall>p \<in> partsOf User out. p \<in> partsOf User ?S' \<or>
         (\<exists>i n c a. p = FunctionResponse i n c \<and> n \<noteq> [] \<and> FunctionCall i n a \<in> partsOf Model ?S'))"
    using Cons.prems(1-3) by (intro Cons.IH [OF _ _ _ l]) (simp_all add: M)
  show ?case
  proof (intro conjI ballI)
    show "partsOf Model out = partsOf Model S" using IH M by simp
  next
    fix p assume "p \<in> partsOf User out"
    with IH have "p \<in> partsOf User ?S' \<or>
        (\<exists>i n c a. p = FunctionResponse i n c \<and> n \<noteq> [] \<and> FunctionCall i n a \<in> partsOf Model S)"
      by (simp add: M)
    then show "p \<in> partsOf User S \<or>
        (\<exists>i n c a. p = FunctionResponse i n c \<and> n \<noteq> [] \<and> FunctionCall i n a \<in> partsOf Model S)"
      using ne fc by (auto simp: handleToolCall_User)
  qed
qed


lemma partsOf_iff: "p \<in> partsOf r S \<longleftrightarrow> (\<exists>t \<in> set S. t_role t = r \<and> p \<in> set (parts t))"
  by (auto simp: partsOf_def split: if_splits)

text \<open>
  C5 (as stated, refuted). A tool call whose function name is the empty string is answered
  by a functionResponse part whose name is empty.
\<close>

theorem empty_function_name_counterexample:
  "openaiMessageToAntigravity
     [\<lparr> role = ''assistant'', content = CAbsent,
        tool_calls = Some [\<lparr> call_id = Some ''call_1'', function_name = [],
                               function_arguments = ''{}'' \<rparr>],
        tool_call_id = None \<rparr>,
      \<lparr> role = ''tool'', content = CString ''r1'', tool_calls = None,
        tool_call_id = Some ''call_1'' \<rparr>] =
   Inr [\<lparr> t_role = Model, parts = [FunctionCall (Some ''call_1'') [] ''{}''] \<rparr>,
        \<lparr> t_role = User, parts = [FunctionResponse (Some ''call_1'') [] (CString ''r1'')] \<rparr>]"
  by (simp add: openaiMessageToAntigravity_def transcodeMessage_def handleAssistantMessage_def
      hasContentOf_def toFunctionCall_def handleToolCall_def Let_def)

text \<open>
  C5 (amended). Let a message list consist of assistant messages followed by tool messages
  whose tool call ids are, in order, the ids of all the tool calls of the assistant
  messages, and let every tool call have a non-empty function name. Then every
  functionResponse part of the translation has a non-empty name, which is the name of a
  functionCall part with the same id in a model turn of the translation; when the call
  ids are pairwise different, every functionCall part with that id has this name.
\<close>

theorem function_response_names_resolved:
  assumes "\<forall>a \<in> set assistants. role a = ''assistant''"
    and "\<forall>t \<in> set toolMessages. role t = ''tool''"
    and "map tool_call_id toolMessages = map call_id (concat (map callsOf assistants))"
    and "\<forall>c \<in> set (concat (map callsOf assistants)). function_name c \<noteq> []"
    and "openaiMessageToAntigravity (assistants @ toolMessages) = Inr out"
    and "t \<in> set out" and "FunctionResponse i n c \<in> set (parts t)"
  shows "n \<noteq> [] \<and>
         (\<exists>t' \<in> set out. \<exists>a. t_role t' = Model \<and> FunctionCall i n a \<in> set (parts t')) \<and>
         (distinct (map call_id (concat (map callsOf assistants))) \<longrightarrow>
            (\<forall>t' \<in> set out. \<forall>n' a'. FunctionCall i n' a' \<in> set (parts t') \<longrightarrow> n' = n))"
proof -
  define calls where "calls = concat (map callsOf assistants)"
  let ?FC = "toFunctionCall ` set calls"
  note ids = assms(3) [folded calls_def] and names = assms(4) [folded calls_def]
  from assms(5) obtain S1 where p1: "transcodeLoop assistants [] = Inr S1"
    and p2: "transcodeLoop toolMessages S1 = Inr out"
    by (auto simp: openaiMessageToAntigravity_def transcodeLoop_append split: sum.splits)
  from assistants_phase [OF assms(1) p1, folded calls_def]
  have U1: "partsOf User S1 = {}"
    and M1: "partsOf Model S1 \<subseteq> range Text \<union> ?FC" "?FC \<subseteq> partsOf Model S1"
    by simp_all
  have fc: "\<exists>k \<in> set calls. j = call_id k \<and> m = function_name k"
    if "FunctionCall j m b \<in> partsOf Model S1" for j m b
  proof -
    from that M1(1) have "FunctionCall j m b \<in> ?FC"
      by blast
    then obtain k where "k \<in> set calls" and "FunctionCall j m b = toFunctionCall k"
      by blast
    then show ?thesis
      by (intro bexI [of _ k]) (simp_all add: toFunctionCall_def)
  qed
  have G: "\<forall>t \<in> set toolMessages. \<exists>n a. FunctionCall (tool_call_id t) n a \<in> partsOf Model S1"
  proof
    fix x assume "x \<in> set toolMessages"
    then have "tool_call_id x \<in> set (map tool_call_id toolMessages)"
      by simp
    then have "tool_call_id x \<in> call_id ` set calls"
      by (simp only: ids set_map)
    then obtain k where k: "k \<in> set calls" and "call_id k = tool_call_id x"
      by auto
    then have "toFunctionCall k = FunctionCall (tool_call_id x) (function_name k) (function_arguments k)"
      by (simp add: toFunctionCall_def)
    with k M1(2) have "FunctionCall (tool_call_id x) (function_name k) (function_arguments k)
        \<in> partsOf Model S1"
      by (metis image_eqI subsetD)
    then show "\<exists>n a. FunctionCall (tool_call_id x) n a \<in> partsOf Model S1"
      by blast
  qed
  have N: "\<forall>i n a. FunctionCall i n a \<in> partsOf Model S1 \<longrightarrow> n \<noteq> []"
    using names by (auto dest!: fc)
  from tools_phase [OF assms(2) G N p2]
  have Mo: "partsOf Model out = partsOf Model S1"
    and Uo: "\<forall>p \<in> partsOf User out.
        \<exists>i n c a. p = FunctionResponse i n c \<and> n \<noteq> [] \<and> FunctionCall i n a \<in> partsOf Model S1"
    by (simp_all add: U1)
  have inU: "FunctionResponse i n c \<in> partsOf User out"
  proof (cases "t_role t")
    case User
    then show ?thesis using assms(6,7) by (auto simp: partsOf_iff)
  next
    case Model
    then have "FunctionResponse i n c \<in> partsOf Model out"
      using assms(6,7) by (auto simp: partsOf_iff)
    then have "FunctionResponse i n c \<in> range Text \<union> ?FC"
      using Mo M1(1) by blast
    then show ?thesis
      by (auto simp: toFunctionCall_def)
  qed
  with Uo obtain a where ne: "n \<noteq> []" and src: "FunctionCall i n a \<in> partsOf Model S1"
    by blast
  from src Mo have "FunctionCall i n a \<in> partsOf Model out"
    by simp
  then have ex: "\<exists>t' \<in> set out. \<exists>a. t_role t' = Model \<and> FunctionCall i n a \<in> set (parts t')"
    unfolding partsOf_iff by blast
  have uniq: "n' = n"
    if d: "distinct (map call_id calls)" and t': "t' \<in> set out"
      and p: "FunctionCall i n' a' \<in> set (parts t')" for t' n' a'
  proof -
    have "FunctionCall i n' a' \<in> partsOf Model S1"
    proof (cases "t_role t'")
      case Model
      then have "FunctionCall i n' a' \<in> partsOf Model out"
        using t' p unfolding partsOf_iff by blast
      then show ?thesis using Mo by simp
    next
      case User
      then have "FunctionCall i n' a' \<in> partsOf User out"
        using t' p by (auto simp: partsOf_iff)
      with Uo show ?thesis by blast
    qed
    from fc [OF this] obtain k' where k': "k' \<in> set calls" "i = call_id k'" "n' = function_name k'"
      by blast
    from fc [OF src] obtain k where k: "k \<in> set calls" "i = call_id k" "n = function_name k"
      by blast
    from d have "inj_on call_id (set calls)"
      by (simp add: distinct_map)
    from inj_onD [OF this _ k(1) k'(1)] k(2) k'(2) have "k = k'"
      by simp
    with k(3) k'(3) show ?thesis
      by simp
  qed
  have "distinct (map call_id calls) \<longrightarrow>
      (\<forall>t' \<in> set out. \<forall>n' a'. FunctionCall i n' a' \<in> set (parts t') \<longrightarrow> n' = n)"
    using uniq by blast
  with ne ex show ?thesis
    unfolding calls_def by (intro conjI)
qed

theorem function_response_names_resolved_witness:
  "\<exists>out. openaiMessageToAntigravity
      ([\<lparr> role = ''assistant'', content = CString ''Let me look'',
          tool_calls = Some [\<lparr> call_id = Some ''call_1'', function_name = ''search'',
                                 function_arguments = ''{}'' \<rparr>,
                             \<lparr> call_id = Some ''call_2'', function_name = ''fetch'',
                                 function_arguments = ''{}'' \<rparr>],
          tool_call_id = None \<rparr>] @
       [\<lparr> role = ''tool'', content = CString ''r1'', tool_calls = None,
          tool_call_id = Some ''call_1'' \<rparr>,
        \<lparr> role = ''tool'', content = CString ''r2'', tool_calls = None,
          tool_call_id = Some ''call_2'' \<rparr>]) = Inr out \<and>
     (\<exists>t \<in> set out. FunctionResponse (Some ''call_2'') ''fetch'' (CString ''r2'') \<in> set (parts t)) \<and>
     (\<exists>t' \<in> set out. \<exists>a. t_role t' = Model \<and>
        FunctionCall (Some ''call_2'') ''fetch'' a \<in> set (parts t')) \<and>
     (\<forall>t' \<in> set out. \<forall>n' a'.
        FunctionCall (Some ''call_2'') n' a' \<in> set (parts t') \<longrightarrow> n' = ''fetch'')"
proof -
  let ?as = "[\<lparr> role = ''assistant'', content = CString ''Let me look'',
          tool_calls = Some [\<lparr> call_id = Some ''call_1'', function_name = ''search'',
                                 function_arguments = ''{}'' \<rparr>,
                             \<lparr> call_id = Some ''call_2'', function_name = ''fetch'',
                                 function_arguments = ''{}'' \<rparr>],
          tool_call_id = None \<rparr>]"
  let ?ts = "[\<lparr> role = ''tool'', content = CString ''r1'', tool_calls = None,
          tool_call_id = Some ''call_1'' \<rparr>,
        \<lparr> role = ''tool'', content = CString ''r2'', tool_calls = None,
          tool_call_id = Some ''call_2'' \<rparr>]"
  let ?u = "\<lparr> t_role = User,
          parts = [FunctionResponse (Some ''call_1'') ''search'' (CString ''r1''),
                   FunctionResponse (Some ''call_2'') ''fetch'' (CString ''r2'')] \<rparr>"
  let ?out = "[\<lparr> t_role = Model,
          parts = [Text ''Let me look'', FunctionCall (Some ''call_1'') ''search'' ''{}'',
                   FunctionCall (Some ''call_2'') ''fetch'' ''{}''] \<rparr>, ?u]"
  have b: "openaiMessageToAntigravity (?as @ ?ts) = Inr ?out"
    by (simp add: openaiMessageToAntigravity_def transcodeMessage_def handleAssistantMessage_def
        hasContentOf_def contentTrimEnd_def trim_def trimStart_def trimEnd_def isWhiteSpace_def
        toFunctionCall_def handleToolCall_def pushToLast_def Let_def)
  have h1: "\<forall>a \<in> set ?as. role a = ''assistant''"
    by simp
  have h2: "\<forall>t \<in> set ?ts. role t = ''tool''"
    by simp
  have h3: "map tool_call_id ?ts = map call_id (concat (map callsOf ?as))"
    by (simp add: callsOf_def)
  have h4: "\<forall>c \<in> set (concat (map callsOf ?as)). function_name c \<noteq> []"
    by (simp add: callsOf_def)
  have h6: "?u \<in> set ?out"
    by simp
  have h7: "FunctionResponse (Some ''call_2'') ''fetch'' (CString ''r2'') \<in> set (parts ?u)"
    by simp
  have d: "distinct (map call_id (concat (map callsOf ?as)))"
    by (simp add: callsOf_def)
  from function_response_names_resolved [OF h1 h2 h3 h4 b h6 h7] d
  have "(\<exists>t' \<in> set ?out. \<exists>a. t_role t' = Model \<and>
        FunctionCall (Some ''call_2'') ''fetch'' a \<in> set (parts t')) \<and>
     (\<forall>t' \<in> set ?out. \<forall>n' a'.
        FunctionCall (Some ''call_2'') n' a' \<in> set (parts t') \<longrightarrow> n' = ''fetch'')"
    by blast
  moreover have "\<exists>t \<in> set ?out.
      FunctionResponse (Some ''call_2'') ''fetch'' (CString ''r2'') \<in> set (parts t)"
    using h6 h7 by blast
  ultimately show ?thesis
    using b by blast
qed

end
